theory Spec2Isabelle
  imports Main
begin

section \<open>Python strings and values used by the bowtie2 service\<close>

text \<open>
  The source is \<^verbatim>\<open>pbalign/alignservice/bowtie.py\<close>. Python strings are modelled as
  \<open>string\<close>, Python's unbounded integers as \<open>int\<close>. A field of the options object
  is unset (\<open>None\<close>) or holds an integer or a string.
\<close>

datatype pyval = IntV int | StrV string

text \<open>
  \<^verbatim>\<open>s.split(' ')\<close>: a split at every single space. A character other than a space
  goes in front of the first word of the rest; the result is never empty, so the
  first branch of the \<open>case\<close> is never taken.
\<close>

primrec split_sp :: "string \<Rightarrow> string list" where
  "split_sp [] = [[]]"
| "split_sp (c # cs) =
     (if c = CHR 0x20 then [] # split_sp cs
      else (case split_sp cs of [] \<Rightarrow> [[c]] | w # ws \<Rightarrow> (c # w) # ws))"

text \<open>\<^verbatim>\<open>" ".join(items)\<close>.\<close>

fun join_sp :: "string list \<Rightarrow> string" where
  "join_sp [] = []"
| "join_sp [w] = w"
| "join_sp (w # v # ws) = w @ CHR 0x20 # join_sp (v # ws)"

text \<open>\<^verbatim>\<open>".".join([a, b])\<close>.\<close>

definition join_dot :: "string \<Rightarrow> string \<Rightarrow> string" where
  "join_dot a b = a @ CHR ''.'' # b"

text \<open>
  \<^verbatim>\<open>int(s)\<close> on a string, base 10: surrounding whitespace is stripped, one sign is
  allowed, and at least one decimal digit must follow. \<open>None\<close> stands for the
  \<^verbatim>\<open>ValueError\<close> that \<^verbatim>\<open>int\<close> raises. This is the literal form of Python 2.7, for
  which the module is written; every string accepted here is accepted, with the same
  value, by later versions too. The further forms of later versions (digit groups
  joined by underscores, digits outside ASCII) are rejected by this model.
\<close>

definition is_space :: "char \<Rightarrow> bool" where
  "is_space c = (c \<in> set [CHR 0x20, CHR 0x09, CHR 0x0A, CHR 0x0B, CHR 0x0C, CHR 0x0D])"

definition strip :: "string \<Rightarrow> string" where
  "strip s = rev (dropWhile is_space (rev (dropWhile is_space s)))"

definition is_digit :: "char \<Rightarrow> bool" where
  "is_digit c = (c \<in> set ''0123456789'')"

definition digit_val :: "char \<Rightarrow> nat" where
  "digit_val c = of_char c - 48"

definition digits_val :: "string \<Rightarrow> nat" where
  "digits_val ds = foldl (\<lambda>a c. 10 * a + digit_val c) 0 ds"

definition unsigned_int :: "string \<Rightarrow> nat option" where
  "unsigned_int ds = (if ds \<noteq> [] \<and> list_all is_digit ds then Some (digits_val ds) else None)"

definition py_int :: "string \<Rightarrow> int option" where
  "py_int s =
     (case strip s of
        [] \<Rightarrow> None
      | c # r \<Rightarrow>
          if c = CHR ''-'' then map_option (\<lambda>n. - int n) (unsigned_int r)
          else if c = CHR ''+'' then map_option int (unsigned_int r)
          else map_option int (unsigned_int (c # r)))"

text \<open>\<^verbatim>\<open>str(n)\<close> of an integer, as \<^verbatim>\<open>"{x}".format(x=n)\<close> prints it.\<close>

definition digit_char :: "nat \<Rightarrow> char" where
  "digit_char d = ''0123456789'' ! d"

fun str_nat :: "nat \<Rightarrow> string" where
  "str_nat n = (if n < 10 then [digit_char n] else str_nat (n div 10) @ [digit_char (n mod 10)])"

declare str_nat.simps [simp del]

definition str_int :: "int \<Rightarrow> string" where
  "str_int i = (if i < 0 then CHR ''-'' # str_nat (nat (- i)) else str_nat (nat i))"

text \<open>\<^verbatim>\<open>"{x}".format(x=v)\<close> for a field value.\<close>

fun format_val :: "pyval \<Rightarrow> string" where
  "format_val (IntV n) = str_int n"
| "format_val (StrV s) = s"

text \<open>\<^verbatim>\<open>v != ""\<close> for a field value: an integer is never equal to a string.\<close>

fun not_empty_str :: "pyval \<Rightarrow> bool" where
  "not_empty_str (IntV n) = True"
| "not_empty_str (StrV s) = (s \<noteq> [])"

section \<open>Errors\<close>

text \<open>
  The exceptions that can arise inside the \<^verbatim>\<open>try\<close> block of
  \<^verbatim>\<open>_resolveAlgorithmOptions\<close>:
  \<^item> \<open>IndexError\<close>: \<^verbatim>\<open>items[i+1]\<close> read past the end of the list;
  \<^item> \<open>InvalidLiteral s\<close>: \<^verbatim>\<open>int(s)\<close> rejected \<open>s\<close>;
  \<^item> \<open>AttributeError a\<close>: the options object has no attribute \<open>a\<close>;
  \<^item> \<open>Conflict m\<close>: the \<^verbatim>\<open>ValueError(errMsg)\<close> raised for a conflict, with its text.

  What the caller receives is \<open>ValueError pre e\<close>, the exception
  \<^verbatim>\<open>ValueError(pre + str(e))\<close> built in the \<^verbatim>\<open>except\<close> clause, or
  \<open>RuntimeError m\<close> from the index builder.
\<close>

datatype cause = IndexError | InvalidLiteral string | AttributeError string | Conflict string

datatype error = ValueError string cause | RuntimeError string

section \<open>The options record\<close>

record options =
  maxHits :: "pyval option"
  minAnchorSize :: "pyval option"
  nproc :: "pyval option"
  seed :: "pyval option"
  algorithmOptions :: "string option"

text \<open>\<^verbatim>\<open>int(v)\<close> on a field value.\<close>

fun int_of_pyval :: "pyval \<Rightarrow> cause + int" where
  "int_of_pyval (IntV n) = Inr n"
| "int_of_pyval (StrV s) = (case py_int s of None \<Rightarrow> Inl (InvalidLiteral s) | Some n \<Rightarrow> Inr n)"

section \<open>Option reconciliation: \<^verbatim>\<open>_resolveAlgorithmOptions\<close>\<close>

definition ignoredBinaryOptions :: "string list" where
  "ignoredBinaryOptions =
     [''-x'', ''-S'', ''-1'', ''-2'', ''-U'', ''-r'', ''-q'', ''--qseq'', ''--seed'']"

definition ignoredUnitaryOptions :: "string list" where
  "ignoredUnitaryOptions = [''--version'', ''--help'']"

definition kConflictMsg :: string where
  "kConflictMsg =
     ''bowtie2 -k specified within '' @ ''--algorithmOptions is equivalent to '' @
     ''--maxHits. Conflicting values of '' @ ''--algorithmOptions '' @ [CHR 0x27] @ ''-k'' @
     [CHR 0x27] @ '' and '' @ ''--maxHits have been found.''"

definition lConflictMsg :: string where
  "lConflictMsg =
     ''bowtie2 -L specified within '' @ ''--algorithmOptions is equivalent to '' @
     ''--minAnchorSize. Conflicting values '' @ ''of --algorithmOptions '' @ [CHR 0x27] @
     ''-L'' @ [CHR 0x27] @ '' and '' @ ''--minAnchorSize have been found.''"

text \<open>\<^verbatim>\<open>int(items[i+1])\<close>, called here with \<open>j = i + 1\<close>.\<close>

definition int_item :: "string list \<Rightarrow> nat \<Rightarrow> cause + int" where
  "int_item items j =
     (if j < length items
      then (case py_int (items ! j) of
              None \<Rightarrow> Inl (InvalidLiteral (items ! j))
            | Some n \<Rightarrow> Inr n)
      else Inl IndexError)"

text \<open>\<^verbatim>\<open>del items[i:j]\<close>; a slice that runs past the end deletes what is there.\<close>

definition del_slice :: "nat \<Rightarrow> nat \<Rightarrow> 'a list \<Rightarrow> 'a list" where
  "del_slice i j items = take i items @ drop (max i j) items"

text \<open>
  One pass through the body of the \<^verbatim>\<open>while\<close> loop, entered with \<open>i < len(items)\<close>.
  \<open>Raise e\<close>: the body raised \<open>e\<close>; \<open>Next opts i items\<close>: the loop goes on with these
  values. The calls to \<^verbatim>\<open>logging\<close> write log records only and are left out.
  The source stores the conflict text in \<^verbatim>\<open>errMsg\<close> and raises right after the chain
  of branches; nothing runs in between, so here the branch itself raises. A branch
  that ends in \<^verbatim>\<open>continue\<close> skips \<^verbatim>\<open>del items[i:i+2]\<close>; every other branch that does not
  raise reaches it.

  In the \<^verbatim>\<open>-p\<close> branch the source reads \<^verbatim>\<open>options.npoc\<close> when \<^verbatim>\<open>options.nproc\<close> is
  not \<^verbatim>\<open>None\<close>; the options object has no such attribute, so that read raises
  \<open>AttributeError\<close>.
\<close>

datatype outcome = Raise cause | Next options nat "string list"

definition loopBody :: "options \<Rightarrow> nat \<Rightarrow> string list \<Rightarrow> outcome" where
  "loopBody opts i items =
     (let item = items ! i in
      if item = ''-k'' then
        (case int_item items (i + 1) of
           Inl e \<Rightarrow> Raise e
         | Inr val \<Rightarrow>
             (case maxHits opts of
                None \<Rightarrow> Next opts i (del_slice i (i + 2) items)
              | Some m \<Rightarrow>
                  (case int_of_pyval m of
                     Inl e \<Rightarrow> Raise e
                   | Inr mv \<Rightarrow>
                       if mv \<noteq> val then Raise (Conflict kConflictMsg)
                       else Next opts i (del_slice i (i + 2) items))))
      else if item = ''-L'' then
        (case int_item items (i + 1) of
           Inl e \<Rightarrow> Raise e
         | Inr val \<Rightarrow>
             (case minAnchorSize opts of
                None \<Rightarrow> Next opts i (del_slice i (i + 2) items)
              | Some m \<Rightarrow>
                  (case int_of_pyval m of
                     Inl e \<Rightarrow> Raise e
                   | Inr mv \<Rightarrow>
                       if mv \<noteq> val then Raise (Conflict lConflictMsg)
                       else Next opts i (del_slice i (i + 2) items))))
      else if item = ''-p'' then
        (case int_item items (i + 1) of
           Inl e \<Rightarrow> Raise e
         | Inr val \<Rightarrow>
             (case nproc opts of
                None \<Rightarrow> Next (opts\<lparr>nproc := Some (IntV val)\<rparr>) i (del_slice i (i + 2) items)
              | Some _ \<Rightarrow> Raise (AttributeError ''npoc'')))
      else if item \<in> set ignoredBinaryOptions then
        Next opts i (del_slice i (i + 2) items)
      else if item \<in> set ignoredUnitaryOptions then
        Next opts i (del_slice i (i + 1) items)
      else Next opts (i + 1) items)"

text \<open>
  The \<^verbatim>\<open>while i < len(items)\<close> loop. \<open>Inl (e, opts)\<close>: the loop raised \<open>e\<close> and left
  the options object as \<open>opts\<close>; \<open>Inr (opts, items)\<close>: the loop ended.
\<close>

function scan :: "options \<Rightarrow> nat \<Rightarrow> string list \<Rightarrow> cause \<times> options + options \<times> string list" where
  "scan opts i items =
     (if i < length items then
        (case loopBody opts i items of
           Raise e \<Rightarrow> Inl (e, opts)
         | Next opts' i' items' \<Rightarrow> scan opts' i' items')
      else Inr (opts, items))"
  by pat_completeness auto
termination
  by (relation "measure (\<lambda>(opts, i, items). length items - i)")
     (auto simp: loopBody_def Let_def del_slice_def split: if_splits sum.splits option.splits)

declare scan.simps [simp del]

text \<open>
  The state of the loop after \<open>n\<close> passes through its body, when none of them raised
  and the loop had not ended before: the options object, the index and the token list
  with which the next pass starts.
\<close>

fun loopSteps :: "nat \<Rightarrow> options \<Rightarrow> nat \<Rightarrow> string list \<Rightarrow> (options \<times> nat \<times> string list) option" where
  "loopSteps 0 opts i items = Some (opts, i, items)"
| "loopSteps (Suc n) opts i items =
     (if i < length items then
        (case loopBody opts i items of
           Raise e \<Rightarrow> None
         | Next opts' i' items' \<Rightarrow> loopSteps n opts' i' items')
      else None)"

text \<open>
  The tokens the loop acts on; every other token takes the final \<^verbatim>\<open>else\<close> branch and
  stays in the list.
\<close>

definition recognised :: "string \<Rightarrow> bool" where
  "recognised t =
     (t = ''-k'' \<or> t = ''-L'' \<or> t = ''-p'' \<or> t \<in> set ignoredBinaryOptions \<or>
      t \<in> set ignoredUnitaryOptions)"

text \<open>The text built in the \<^verbatim>\<open>except\<close> clause, before \<^verbatim>\<open>str(e)\<close> is appended.\<close>

definition wrapMsg :: "string \<Rightarrow> string" where
  "wrapMsg ao =
     ''An error occured during parsing algorithmOptions '' @ [CHR 0x27] @ ao @ [CHR 0x27]"

text \<open>
  The \<^verbatim>\<open>try\<close>/\<^verbatim>\<open>except\<close> around the loop and the write-back of the joined tokens,
  for the token list \<open>items\<close> of the raw string \<open>ao\<close>.
\<close>

definition resolveItems ::
  "options \<Rightarrow> string \<Rightarrow> string list \<Rightarrow> error \<times> options + options" where
  "resolveItems opts ao items =
     (case scan opts 0 items of
        Inl (e, opts') \<Rightarrow> Inl (ValueError (wrapMsg ao) e, opts')
      | Inr (opts', items') \<Rightarrow> Inr (opts'\<lparr>algorithmOptions := Some (join_sp items')\<rparr>))"

text \<open>
  \<^verbatim>\<open>_resolveAlgorithmOptions(options, fileNames)\<close>. The options object is changed in
  place, so a raise leaves it as it was at that moment: \<open>Inl (err, opts)\<close> is the
  exception together with the options object the caller still holds, \<open>Inr opts\<close> the
  returned object. \<^verbatim>\<open>fileNames\<close> is not used by the source.
\<close>

definition resolveAlgorithmOptions :: "options \<Rightarrow> error \<times> options + options" where
  "resolveAlgorithmOptions opts =
     (case algorithmOptions opts of
        None \<Rightarrow> Inr opts
      | Some ao \<Rightarrow> resolveItems opts ao (split_sp ao))"

section \<open>Index path resolution: \<^verbatim>\<open>bt2BaseName\<close>, \<^verbatim>\<open>bt2IndexFiles\<close>\<close>

text \<open>
  \<^verbatim>\<open>os.path\<close> is \<^verbatim>\<open>posixpath\<close>. \<open>rfind c s\<close> is \<^verbatim>\<open>s.rfind(c)\<close>: the index of the
  last \<open>c\<close> in \<open>s\<close>, or \<open>-1\<close>.
\<close>

definition rfind :: "char \<Rightarrow> string \<Rightarrow> int" where
  "rfind c s =
     (if c \<in> set s then int (length s) - 1 - int (length (takeWhile (\<lambda>x. x \<noteq> c) (rev s)))
      else - 1)"

text \<open>\<^verbatim>\<open>path.basename(p)\<close>: \<^verbatim>\<open>p[p.rfind('/') + 1:]\<close>.\<close>

definition basename :: "string \<Rightarrow> string" where
  "basename p = drop (nat (rfind CHR ''/'' p + 1)) p"

text \<open>
  \<^verbatim>\<open>path.splitext(p)\<close>: the split is at the last dot, when that dot comes after the
  last slash and some character between them is not a dot.
\<close>

definition splitext :: "string \<Rightarrow> string \<times> string" where
  "splitext p =
     (let sepIndex = rfind CHR ''/'' p;
          dotIndex = rfind CHR ''.'' p in
      if dotIndex > sepIndex \<and>
         list_ex (\<lambda>c. c \<noteq> CHR ''.'')
           (take (nat (dotIndex - (sepIndex + 1))) (drop (nat (sepIndex + 1)) p))
      then (take (nat dotIndex) p, drop (nat dotIndex) p)
      else (p, []))"

text \<open>\<^verbatim>\<open>path.join(a, b)\<close> with one component \<open>b\<close>.\<close>

definition path_join :: "string \<Rightarrow> string \<Rightarrow> string" where
  "path_join a b =
     (if b \<noteq> [] \<and> hd b = CHR ''/'' then b
      else if a = [] \<or> last a = CHR ''/'' then a @ b
      else a @ CHR ''/'' # b)"

definition bt2BaseName :: "string \<Rightarrow> string \<Rightarrow> string" where
  "bt2BaseName tempDir refFile = path_join tempDir (fst (splitext (basename refFile)))"

definition bt2IndexFiles :: "string \<Rightarrow> string list" where
  "bt2IndexFiles baseName =
     (let exts = [''1.bt2'', ''2.bt2'', ''3.bt2'', ''4.bt2'', ''rev.1.bt2'', ''rev.2.bt2'']
      in map (\<lambda>ext. join_dot baseName ext) exts)"

section \<open>Index building: \<^verbatim>\<open>_bt2BuildIndex\<close>, \<^verbatim>\<open>_preProcess\<close>\<close>

text \<open>
  \<^verbatim>\<open>backticks\<close> (from \<^verbatim>\<open>pbcore\<close>) runs a shell command and returns its output lines,
  its exit code and its error text. It is a parameter of the model: a function from
  the command string to that triple.
\<close>

type_synonym backticks = "string \<Rightarrow> string list \<times> int \<times> string"

definition bt2BuildIndex :: "backticks \<Rightarrow> string \<Rightarrow> string \<Rightarrow> error + string list" where
  "bt2BuildIndex run tempDir referenceFile =
     (let refBaseName = bt2BaseName tempDir referenceFile;
          cmdStr = ''bowtie2-build -q -f '' @ referenceFile @ '' '' @ refBaseName;
          (output, errCode, errMsg) = run cmdStr
      in if errCode \<noteq> 0 then Inl (RuntimeError errMsg)
         else Inr (bt2IndexFiles refBaseName))"

text \<open>
  The temporary-file manager: its root directory and the files registered with it, in
  the order of registration, each with its \<^verbatim>\<open>own\<close> flag.
\<close>

record tempFileManager =
  defaultRootDir :: string
  fileDB :: "(string \<times> bool) list"

text \<open>
  Modelled from the spec: \<^verbatim>\<open>TempFileManager.RegisterExistingTmpFile(path, own)\<close> is
  not part of the source file; the manager records the path with its ownership flag.
\<close>

definition RegisterExistingTmpFile :: "tempFileManager \<Rightarrow> string \<Rightarrow> bool \<Rightarrow> tempFileManager" where
  "RegisterExistingTmpFile m p own = m\<lparr>fileDB := fileDB m @ [(p, own)]\<rparr>"

text \<open>
  \<^verbatim>\<open>_preProcess\<close>. The conversion \<^verbatim>\<open>self._pls2fasta\<close> belongs to the base class and
  is a parameter: it is called last, with the manager as the registration loop left
  it, and \<^verbatim>\<open>_preProcess\<close> returns what it returns. The result pairs the outcome with
  the manager's state. \<^verbatim>\<open>isWithinRepository\<close> is not used by the source.
\<close>

definition preProcess ::
  "backticks \<Rightarrow> (tempFileManager \<Rightarrow> string \<Rightarrow> 'r \<Rightarrow> bool \<Rightarrow> (error + string) \<times> tempFileManager) \<Rightarrow>
   string \<Rightarrow> string \<Rightarrow> 'r \<Rightarrow> bool \<Rightarrow> tempFileManager \<Rightarrow> bool \<Rightarrow>
   (error + string) \<times> tempFileManager" where
  "preProcess run pls2fasta inputFileName referenceFile regionTable noSplitSubreads
     tfm isWithinRepository =
     (case bt2BuildIndex run (defaultRootDir tfm) referenceFile of
        Inl e \<Rightarrow> (Inl e, tfm)
      | Inr indexFiles \<Rightarrow>
          pls2fasta (foldl (\<lambda>m indexFile. RegisterExistingTmpFile m indexFile True) tfm indexFiles)
            inputFileName regionTable noSplitSubreads)"

section \<open>Command construction: \<^verbatim>\<open>_toCmd\<close>\<close>

record fileNames =
  targetFileName :: string
  queryFileName :: string
  alignerSamOut :: string

text \<open>\<^verbatim>\<open>v is not None and v != ""\<close>.\<close>

definition is_given :: "pyval option \<Rightarrow> bool" where
  "is_given v = (case v of None \<Rightarrow> False | Some x \<Rightarrow> not_empty_str x)"

definition toCmd :: "options \<Rightarrow> fileNames \<Rightarrow> tempFileManager \<Rightarrow> string" where
  "toCmd opts files tfm =
     (let cmdStr = ''bowtie2 '';
          cmdStr = (if is_given (maxHits opts)
                    then cmdStr @ '' -k '' @ format_val (the (maxHits opts)) else cmdStr);
          cmdStr = (if is_given (nproc opts)
                    then cmdStr @ '' -p '' @ format_val (the (nproc opts)) else cmdStr);
          cmdStr = (case algorithmOptions opts of
                      None \<Rightarrow> cmdStr
                    | Some ao \<Rightarrow> cmdStr @ '' '' @ ao @ '' '');
          cmdStr = (if is_given (seed opts)
                    then cmdStr @ '' --seed '' @ format_val (the (seed opts)) @ '' '' else cmdStr);
          refBaseName = bt2BaseName (defaultRootDir tfm) (targetFileName files)
      in cmdStr @ ''-x '' @ refBaseName @ '' -f '' @ queryFileName files @
           '' -S '' @ alignerSamOut files @ '' '')"

section \<open>Facts about the scan\<close>

subsection \<open>Splitting and joining\<close>

lemma split_sp_not_Nil [simp]: "split_sp s \<noteq> []"
  by (induction s) (auto split: list.splits)

lemma split_sp_no_space: "t \<in> set (split_sp s) \<Longrightarrow> CHR 0x20 \<notin> set t"
proof (induction s arbitrary: t)
  case Nil
  then show ?case by simp
next
  case (Cons c cs)
  show ?case
  proof (cases "c = CHR 0x20")
    case True
    with Cons show ?thesis by auto
  next
    case False
    obtain w ws where sp: "split_sp cs = w # ws" by (cases "split_sp cs") simp_all
    with False Cons.prems have "t = c # w \<or> t \<in> set ws" by simp
    then show ?thesis
    proof
      assume "t = c # w"
      moreover have "CHR 0x20 \<notin> set w"
        by (rule Cons.IH) (simp add: sp)
      ultimately show ?thesis using False by auto
    next
      assume "t \<in> set ws"
      then have "t \<in> set (split_sp cs)" by (simp add: sp)
      then show ?thesis by (rule Cons.IH)
    qed
  qed
qed

lemma split_sp_append_space: "split_sp (a @ CHR 0x20 # b) = split_sp a @ split_sp b"
proof (induction a)
  case Nil
  then show ?case by simp
next
  case (Cons c a)
  obtain w ws where sp: "split_sp a = w # ws" by (cases "split_sp a") simp_all
  with Cons show ?case by simp
qed

lemma split_sp_word: "CHR 0x20 \<notin> set w \<Longrightarrow> split_sp w = [w]"
  by (induction w) auto

lemma split_join:
  "ws \<noteq> [] \<Longrightarrow> \<forall>w\<in>set ws. CHR 0x20 \<notin> set w \<Longrightarrow> split_sp (join_sp ws) = ws"
proof (induction ws rule: join_sp.induct)
  case 1
  then show ?case by simp
next
  case (2 w)
  then show ?case by (simp add: split_sp_word)
next
  case (3 w v ws)
  then show ?case by (simp add: split_sp_append_space split_sp_word)
qed

lemma join_split: "join_sp (split_sp s) = s"
proof (induction s)
  case Nil
  then show ?case by simp
next
  case (Cons c cs)
  obtain w ws where sp: "split_sp cs = w # ws" by (cases "split_sp cs") simp_all
  show ?case
  proof (cases "c = CHR 0x20")
    case True
    with Cons sp show ?thesis by simp
  next
    case False
    with Cons sp show ?thesis by (cases ws) auto
  qed
qed

subsection \<open>Tokens that pass through\<close>

lemma loopBody_passive:
  "\<not> recognised t \<Longrightarrow> loopBody opts (length pre) (pre @ t # rest) = Next opts (length pre + 1) (pre @ t # rest)"
  by (simp add: loopBody_def recognised_def)

lemma scan_passive:
  "\<not> recognised t \<Longrightarrow> scan opts (length pre) (pre @ t # rest) = scan opts (length (pre @ [t])) ((pre @ [t]) @ rest)"
  by (subst scan.simps) (simp add: loopBody_passive)

lemma scan_skip:
  "\<forall>t\<in>set ts. \<not> recognised t \<Longrightarrow>
     scan opts (length pre) (pre @ ts @ rest) = scan opts (length (pre @ ts)) ((pre @ ts) @ rest)"
proof (induction ts arbitrary: pre)
  case Nil
  then show ?case by simp
next
  case (Cons t ts)
  have "scan opts (length pre) (pre @ (t # ts) @ rest) = scan opts (length (pre @ [t])) ((pre @ [t]) @ ts @ rest)"
    using Cons.prems scan_passive [of t opts pre "ts @ rest"] by simp
  also have "\<dots> = scan opts (length ((pre @ [t]) @ ts)) (((pre @ [t]) @ ts) @ rest)"
    using Cons.prems by (intro Cons.IH) simp
  finally show ?case by simp
qed

lemma scan_skip0:
  "\<forall>t\<in>set ts. \<not> recognised t \<Longrightarrow> scan opts 0 (ts @ rest) = scan opts (length ts) (ts @ rest)"
  using scan_skip [of ts opts "[]" rest] by simp

lemma loopBody_fields:
  "loopBody opts i items = Next opts' i' items' \<Longrightarrow>
     opts' = opts\<lparr>nproc := nproc opts'\<rparr> \<and> set items' \<subseteq> set items"
  by (auto simp: loopBody_def Let_def del_slice_def split: if_splits sum.splits option.splits
      dest: in_set_takeD in_set_dropD)

lemma scan_Inl_fields:
  "scan opts i items = Inl (e, opts') \<Longrightarrow> opts' = opts\<lparr>nproc := nproc opts'\<rparr>"
proof (induction opts i items rule: scan.induct)
  case (1 opts i items)
  show ?case
  proof (cases "i < length items")
    case False
    with "1.prems" show ?thesis by (simp add: scan.simps)
  next
    case True
    show ?thesis
    proof (cases "loopBody opts i items")
      case (Raise c)
      with True "1.prems" show ?thesis by (simp add: scan.simps)
    next
      case (Next o2 i2 items2)
      with True "1.prems" have "scan o2 i2 items2 = Inl (e, opts')" by (simp add: scan.simps)
      with "1.IH" [OF True Next] have "opts' = o2\<lparr>nproc := nproc opts'\<rparr>" by simp
      moreover from loopBody_fields [OF Next] have "o2 = opts\<lparr>nproc := nproc o2\<rparr>" by simp
      ultimately show ?thesis by (metis options.update_convs(3) options.surjective options.select_convs)
    qed
  qed
qed


lemma scan_Inr_fields:
  "scan opts i items = Inr (opts', items') \<Longrightarrow>
     opts' = opts\<lparr>nproc := nproc opts'\<rparr> \<and> set items' \<subseteq> set items"
proof (induction opts i items rule: scan.induct)
  case (1 opts i items)
  show ?case
  proof (cases "i < length items")
    case False
    with "1.prems" show ?thesis by (simp add: scan.simps)
  next
    case True
    show ?thesis
    proof (cases "loopBody opts i items")
      case (Raise c)
      with True "1.prems" show ?thesis by (simp add: scan.simps)
    next
      case (Next o2 i2 items2)
      with True "1.prems" have "scan o2 i2 items2 = Inr (opts', items')" by (simp add: scan.simps)
      with "1.IH" [OF True Next]
      have a: "opts' = o2\<lparr>nproc := nproc opts'\<rparr>" and b: "set items' \<subseteq> set items2" by simp_all
      from loopBody_fields [OF Next]
      have c: "o2 = opts\<lparr>nproc := nproc o2\<rparr>" and d: "set items2 \<subseteq> set items" by simp_all
      from a c have "opts' = opts\<lparr>nproc := nproc opts'\<rparr>"
        by (metis options.update_convs(3) options.surjective)
      with b d show ?thesis by blast
    qed
  qed
qed

lemma loopBody_kept:
  "i < length items \<Longrightarrow> loopBody opts i items = Next opts' i' items' \<Longrightarrow>
     \<forall>k<i. \<not> recognised (items ! k) \<Longrightarrow> i' \<le> length items' \<and> (\<forall>k<i'. \<not> recognised (items' ! k))"
  by (auto simp: loopBody_def Let_def del_slice_def recognised_def nth_append less_Suc_eq
      split: if_splits sum.splits option.splits)

lemma scan_Inr_passive:
  "scan opts i items = Inr (opts', items') \<Longrightarrow> i \<le> length items \<Longrightarrow>
     \<forall>k<i. \<not> recognised (items ! k) \<Longrightarrow> \<forall>t\<in>set items'. \<not> recognised t"
proof (induction opts i items rule: scan.induct)
  case (1 opts i items)
  show ?case
  proof (cases "i < length items")
    case False
    with "1.prems" have "items' = items" "i = length items" by (simp_all add: scan.simps)
    with "1.prems"(3) show ?thesis by (auto simp: in_set_conv_nth)
  next
    case True
    show ?thesis
    proof (cases "loopBody opts i items")
      case (Raise c)
      with True "1.prems" show ?thesis by (simp add: scan.simps)
    next
      case (Next o2 i2 items2)
      with True "1.prems" have s: "scan o2 i2 items2 = Inr (opts', items')" by (simp add: scan.simps)
      from loopBody_kept [OF True Next "1.prems"(3)]
      show ?thesis using "1.IH" [OF True Next s] by simp
    qed
  qed
qed

subsection \<open>States that the loop reaches\<close>

lemma loopSteps_scan:
  "loopSteps n opts i items = Some (opts', i', items') \<Longrightarrow> scan opts i items = scan opts' i' items'"
proof (induction n arbitrary: opts i items)
  case 0
  then show ?case by simp
next
  case (Suc n)
  from Suc.prems have lt: "i < length items" by (simp split: if_splits)
  from Suc.prems lt obtain o2 i2 items2 where
    body: "loopBody opts i items = Next o2 i2 items2" and
    rest: "loopSteps n o2 i2 items2 = Some (opts', i', items')"
    by (auto split: outcome.splits)
  have "scan opts i items = scan o2 i2 items2"
    using lt body by (simp add: scan.simps [of opts i items])
  with Suc.IH [OF rest] show ?case by simp
qed

lemma loopSteps_kept:
  "loopSteps n opts i items = Some (opts', i', items') \<Longrightarrow> i \<le> length items \<Longrightarrow>
     \<forall>k<i. \<not> recognised (items ! k) \<Longrightarrow>
     i' \<le> length items' \<and> (\<forall>k<i'. \<not> recognised (items' ! k))"
proof (induction n arbitrary: opts i items)
  case 0
  then show ?case by simp
next
  case (Suc n)
  from Suc.prems have lt: "i < length items" by (simp split: if_splits)
  from Suc.prems lt obtain o2 i2 items2 where
    body: "loopBody opts i items = Next o2 i2 items2" and
    rest: "loopSteps n o2 i2 items2 = Some (opts', i', items')"
    by (auto split: outcome.splits)
  from loopBody_kept [OF lt body Suc.prems(3)] Suc.IH [OF rest] show ?case by simp
qed

lemma loopSteps_snoc:
  "loopSteps n opts i items = Some (o1, i1, items1) \<Longrightarrow> i1 < length items1 \<Longrightarrow>
     loopBody o1 i1 items1 = Next o2 i2 items2 \<Longrightarrow>
     loopSteps (Suc n) opts i items = Some (o2, i2, items2)"
proof (induction n arbitrary: opts i items)
  case 0
  then show ?case by simp
next
  case (Suc n)
  from Suc.prems(1) have lt: "i < length items" by (simp split: if_splits)
  from Suc.prems(1) lt obtain o3 i3 items3 where
    body: "loopBody opts i items = Next o3 i3 items3" and
    rest: "loopSteps n o3 i3 items3 = Some (o1, i1, items1)"
    by (auto split: outcome.splits)
  from Suc.IH [OF rest Suc.prems(2,3)] have "loopSteps (Suc n) o3 i3 items3 = Some (o2, i2, items2)" .
  with lt body show ?case by (simp del: loopSteps.simps add: loopSteps.simps(2) [of "Suc n" opts i items])
qed

lemma scan_from_start:
  assumes "i \<le> length items" and "\<forall>k<i. \<not> recognised (items ! k)"
  shows "scan opts 0 items = scan opts i items"
proof -
  have "\<forall>t\<in>set (take i items). \<not> recognised t"
    using assms by (auto simp: in_set_conv_nth)
  from scan_skip0 [OF this, of opts "drop i items"] assms(1) show ?thesis by simp
qed

lemma reached_resolve:
  assumes "algorithmOptions opts = Some ao"
      and "loopSteps n opts 0 (split_sp ao) = Some (opts', i, items)"
  shows "scan opts 0 (split_sp ao) = scan opts' i items"
    and "resolveAlgorithmOptions opts = resolveItems opts' ao items"
    and "i \<le> length items" and "\<forall>k<i. \<not> recognised (items ! k)"
proof -
  show a: "scan opts 0 (split_sp ao) = scan opts' i items"
    using assms(2) by (rule loopSteps_scan)
  from loopSteps_kept [OF assms(2)]
  show b: "i \<le> length items" and c: "\<forall>k<i. \<not> recognised (items ! k)" by simp_all
  have "scan opts' 0 items = scan opts' i items" using b c by (rule scan_from_start)
  with a have "scan opts 0 (split_sp ao) = scan opts' 0 items" by simp
  then show "resolveAlgorithmOptions opts = resolveItems opts' ao items"
    using assms(1) by (simp add: resolveAlgorithmOptions_def resolveItems_def)
qed

lemma loopSteps_passive_prefix:
  "\<forall>t\<in>set pre. \<not> recognised t \<Longrightarrow>
     loopSteps (length pre) opts (length kept) (kept @ pre @ rest) =
       Some (opts, length kept + length pre, kept @ pre @ rest)"
proof (induction pre arbitrary: kept)
  case Nil
  then show ?case by simp
next
  case (Cons t pre)
  from Cons.prems have "\<not> recognised t" by simp
  then have "loopBody opts (length kept) (kept @ t # pre @ rest) =
      Next opts (length kept + 1) (kept @ t # pre @ rest)"
    by (rule loopBody_passive)
  moreover have "loopSteps (length pre) opts (length (kept @ [t])) ((kept @ [t]) @ pre @ rest) =
      Some (opts, length (kept @ [t]) + length pre, (kept @ [t]) @ pre @ rest)"
    using Cons.prems by (intro Cons.IH) simp
  ultimately show ?case by simp
qed

lemma reached_after_passive_prefix:
  "\<forall>t\<in>set pre. \<not> recognised t \<Longrightarrow>
     loopSteps (length pre) opts 0 (pre @ rest) = Some (opts, length pre, pre @ rest)"
  using loopSteps_passive_prefix [of pre opts "[]" rest] by simp

lemma loopSteps_fields:
  "loopSteps n opts i items = Some (opts', i', items') \<Longrightarrow> opts' = opts\<lparr>nproc := nproc opts'\<rparr>"
proof (induction n arbitrary: opts i items)
  case 0
  then show ?case by simp
next
  case (Suc n)
  from Suc.prems have lt: "i < length items" by (simp split: if_splits)
  from Suc.prems lt obtain o2 i2 items2 where
    body: "loopBody opts i items = Next o2 i2 items2" and
    rest: "loopSteps n o2 i2 items2 = Some (opts', i', items')"
    by (auto split: outcome.splits)
  from Suc.IH [OF rest] have "opts' = o2\<lparr>nproc := nproc opts'\<rparr>" .
  moreover from loopBody_fields [OF body] have "o2 = opts\<lparr>nproc := nproc o2\<rparr>" by simp
  ultimately show ?case by (metis options.update_convs(3) options.surjective)
qed

lemma reached_fields:
  assumes "loopSteps n opts i items = Some (opts', i', items')"
  shows "maxHits opts' = maxHits opts" and "minAnchorSize opts' = minAnchorSize opts"
    and "seed opts' = seed opts" and "algorithmOptions opts' = algorithmOptions opts"
proof -
  from loopSteps_fields [OF assms] have "opts' = opts\<lparr>nproc := nproc opts'\<rparr>" .
  then have "maxHits opts' = maxHits opts \<and> minAnchorSize opts' = minAnchorSize opts \<and>
      seed opts' = seed opts \<and> algorithmOptions opts' = algorithmOptions opts"
    by (metis options.select_convs options.surjective options.update_convs(3))
  then show "maxHits opts' = maxHits opts" and "minAnchorSize opts' = minAnchorSize opts"
    and "seed opts' = seed opts" and "algorithmOptions opts' = algorithmOptions opts"
    by simp_all
qed

subsection \<open>The ignored flags\<close>

lemma loopBody_binary_at:
  assumes "items ! i \<in> set ignoredBinaryOptions"
  shows "loopBody opts i items = Next opts i (del_slice i (i + 2) items)"
proof -
  have "items ! i \<noteq> ''-k''" and "items ! i \<noteq> ''-L''" and "items ! i \<noteq> ''-p''"
    using assms by (auto simp: ignoredBinaryOptions_def)
  with assms show ?thesis by (simp add: loopBody_def Let_def)
qed

lemma loopBody_unitary_at:
  assumes "items ! i \<in> set ignoredUnitaryOptions"
  shows "loopBody opts i items = Next opts i (del_slice i (i + 1) items)"
proof -
  have "items ! i \<noteq> ''-k''" and "items ! i \<noteq> ''-L''" and "items ! i \<noteq> ''-p''"
    and "items ! i \<notin> set ignoredBinaryOptions"
    using assms by (auto simp: ignoredBinaryOptions_def ignoredUnitaryOptions_def)
  with assms show ?thesis by (simp add: loopBody_def Let_def)
qed

lemma loopBody_unitary:
  "t \<in> set ignoredUnitaryOptions \<Longrightarrow>
     loopBody opts (length pre) (pre @ t # rest) = Next opts (length pre) (pre @ rest)"
  using loopBody_unitary_at [of "pre @ t # rest" "length pre" opts] by (simp add: del_slice_def)

lemma scan_unitary_passive:
  "\<forall>t\<in>set rest. t \<in> set ignoredUnitaryOptions \<or> \<not> recognised t \<Longrightarrow>
     scan opts (length kept) (kept @ rest) =
       Inr (opts, kept @ filter (\<lambda>t. t \<notin> set ignoredUnitaryOptions) rest)"
proof (induction rest arbitrary: kept)
  case Nil
  then show ?case by (simp add: scan.simps)
next
  case (Cons t rest)
  show ?case
  proof (cases "t \<in> set ignoredUnitaryOptions")
    case True
    have "scan opts (length kept) (kept @ t # rest) = scan opts (length kept) (kept @ rest)"
      by (simp add: scan.simps [of opts "length kept" "kept @ t # rest"] loopBody_unitary [OF True])
    with Cons True show ?thesis by simp
  next
    case False
    with Cons.prems have p: "\<not> recognised t" by simp
    have "scan opts (length kept) (kept @ t # rest) = scan opts (length (kept @ [t])) ((kept @ [t]) @ rest)"
      using p by (rule scan_passive)
    also have "\<dots> = Inr (opts, (kept @ [t]) @ filter (\<lambda>t. t \<notin> set ignoredUnitaryOptions) rest)"
      using Cons.prems by (intro Cons.IH) simp
    finally show ?thesis using False by simp
  qed
qed

subsection \<open>What a successful reconciliation leaves\<close>

lemma not_recognised_Nil [simp]: "\<not> recognised []"
  by (simp add: recognised_def ignoredBinaryOptions_def ignoredUnitaryOptions_def)

lemma resolve_result_tokens:
  assumes "resolveAlgorithmOptions opts = Inr r" and "algorithmOptions opts = Some ao"
  shows "\<exists>ao'. algorithmOptions r = Some ao' \<and> (\<forall>t\<in>set (split_sp ao'). \<not> recognised t)"
proof -
  from assms obtain o' items' where
    sc: "scan opts 0 (split_sp ao) = Inr (o', items')" and
    r: "r = o'\<lparr>algorithmOptions := Some (join_sp items')\<rparr>"
    by (auto simp: resolveAlgorithmOptions_def resolveItems_def split: sum.splits prod.splits)
  from scan_Inr_passive [OF sc] have pas: "\<forall>t\<in>set items'. \<not> recognised t" by simp
  from scan_Inr_fields [OF sc] have "set items' \<subseteq> set (split_sp ao)" by simp
  then have nosp: "\<forall>w\<in>set items'. CHR 0x20 \<notin> set w"
    using split_sp_no_space by blast
  have "\<forall>t\<in>set (split_sp (join_sp items')). \<not> recognised t"
  proof (cases "items' = []")
    case True
    then show ?thesis by simp
  next
    case False
    from split_join [OF False nosp] have "split_sp (join_sp items') = items'" .
    with pas show ?thesis by simp
  qed
  with r show ?thesis by simp
qed

lemma resolve_fields:
  assumes "resolveAlgorithmOptions opts = Inr r"
  shows "maxHits r = maxHits opts" and "minAnchorSize r = minAnchorSize opts" and "seed r = seed opts"
proof -
  have "maxHits r = maxHits opts \<and> minAnchorSize r = minAnchorSize opts \<and> seed r = seed opts"
  proof (cases "algorithmOptions opts")
    case None
    with assms show ?thesis by (simp add: resolveAlgorithmOptions_def)
  next
    case (Some ao)
    with assms obtain o' items' where
      sc: "scan opts 0 (split_sp ao) = Inr (o', items')" and
      r: "r = o'\<lparr>algorithmOptions := Some (join_sp items')\<rparr>"
      by (auto simp: resolveAlgorithmOptions_def resolveItems_def split: sum.splits prod.splits)
    from scan_Inr_fields [OF sc] have "o' = opts\<lparr>nproc := nproc o'\<rparr>" by simp
    then have "maxHits o' = maxHits opts \<and> minAnchorSize o' = minAnchorSize opts \<and> seed o' = seed opts"
      by (metis options.select_convs options.surjective options.update_convs(3))
    with r show ?thesis by simp
  qed
  then show "maxHits r = maxHits opts" and "minAnchorSize r = minAnchorSize opts" and "seed r = seed opts"
    by simp_all
qed

lemma loopBody_nproc_set:
  "loopBody opts i items = Next opts' i' items' \<Longrightarrow> nproc opts = Some v \<Longrightarrow> opts' = opts"
  by (auto simp: loopBody_def Let_def split: if_splits sum.splits option.splits)

lemma scan_Inr_nproc_set:
  "scan opts i items = Inr (opts', items') \<Longrightarrow> nproc opts = Some v \<Longrightarrow> opts' = opts"
proof (induction opts i items rule: scan.induct)
  case (1 opts i items)
  show ?case
  proof (cases "i < length items")
    case False
    with "1.prems" show ?thesis by (simp add: scan.simps)
  next
    case True
    show ?thesis
    proof (cases "loopBody opts i items")
      case (Raise c)
      with True "1.prems" show ?thesis by (simp add: scan.simps)
    next
      case (Next o2 i2 items2)
      with True "1.prems" have s: "scan o2 i2 items2 = Inr (opts', items')" by (simp add: scan.simps)
      from loopBody_nproc_set [OF Next "1.prems"(2)] have "o2 = opts" .
      with "1.IH" [OF True Next s] "1.prems"(2) show ?thesis by simp
    qed
  qed
qed

lemma resolveItems_nproc_set:
  "resolveItems opts ao items = Inr r \<Longrightarrow> nproc opts = Some v \<Longrightarrow> nproc r = Some v"
  by (auto simp: resolveItems_def split: sum.splits prod.splits dest: scan_Inr_nproc_set)

text \<open>The definitions that a run of the reconciler on a concrete input unfolds.\<close>

lemmas eval_defs = resolveAlgorithmOptions_def resolveItems_def scan.simps loopBody_def int_item_def
  py_int_def strip_def is_space_def unsigned_int_def is_digit_def digits_val_def digit_val_def
  del_slice_def ignoredBinaryOptions_def ignoredUnitaryOptions_def Let_def

section \<open>The \<^verbatim>\<open>-p\<close> flag and \<open>nproc\<close>\<close>

text \<open>
  \<^bold>\<open>C1\<close>. The property: when the scan comes to a \<^verbatim>\<open>-p\<close> token followed by an integer
  token \<open>N\<close>, the reconciliation goes on without an error and ends with \<open>nproc = N\<close>,
  whether \<open>nproc\<close> was unset or set before, and both tokens leave the list.

  The source does so only while \<open>nproc\<close> is unset: both tokens are deleted, \<open>nproc\<close>
  becomes \<open>N\<close> and stays \<open>N\<close> in every result. When \<open>nproc\<close> is set (to \<open>N\<close> or to any
  other value), the test \<^verbatim>\<open>int(options.npoc) != val\<close> reads an attribute that does
  not exist, and the caller receives the \<^verbatim>\<open>ValueError\<close> of the \<^verbatim>\<open>except\<close> clause with
  \<open>nproc\<close> unchanged.
\<close>

theorem p_flag_sets_nproc_only_when_unset:
  assumes "algorithmOptions opts = Some ao"
      and "loopSteps n opts 0 (split_sp ao) = Some (opts', i, items)"
      and "i < length items" and "items ! i = ''-p''" and "int_item items (i + 1) = Inr N"
  shows "(nproc opts' = None \<longrightarrow>
            resolveAlgorithmOptions opts =
              resolveItems (opts'\<lparr>nproc := Some (IntV N)\<rparr>) ao (del_slice i (i + 2) items) \<and>
            (\<forall>r. resolveAlgorithmOptions opts = Inr r \<longrightarrow> nproc r = Some (IntV N))) \<and>
         (nproc opts' \<noteq> None \<longrightarrow>
            resolveAlgorithmOptions opts =
              Inl (ValueError (wrapMsg ao) (AttributeError ''npoc''), opts'))"
proof (intro conjI impI)
  assume unset: "nproc opts' = None"
  have body: "loopBody opts' i items = Next (opts'\<lparr>nproc := Some (IntV N)\<rparr>) i (del_slice i (i + 2) items)"
    using assms(4,5) unset by (simp add: loopBody_def)
  from loopSteps_snoc [OF assms(2,3) body]
  show eq: "resolveAlgorithmOptions opts =
      resolveItems (opts'\<lparr>nproc := Some (IntV N)\<rparr>) ao (del_slice i (i + 2) items)"
    by (rule reached_resolve(2) [OF assms(1)])
  show "\<forall>r. resolveAlgorithmOptions opts = Inr r \<longrightarrow> nproc r = Some (IntV N)"
    using eq resolveItems_nproc_set [of "opts'\<lparr>nproc := Some (IntV N)\<rparr>" ao _ _ "IntV N"] by simp
next
  assume "nproc opts' \<noteq> None"
  then have "loopBody opts' i items = Raise (AttributeError ''npoc'')"
    using assms(4,5) by (auto simp: loopBody_def)
  then have "scan opts' i items = Inl (AttributeError ''npoc'', opts')"
    using assms(3) by (simp add: scan.simps [of opts' i items])
  with reached_resolve(1) [OF assms(1,2)]
  show "resolveAlgorithmOptions opts = Inl (ValueError (wrapMsg ao) (AttributeError ''npoc''), opts')"
    using assms(1) by (simp add: resolveAlgorithmOptions_def resolveItems_def)
qed

theorem p_flag_witness:
  "resolveAlgorithmOptions
     \<lparr>maxHits = None, minAnchorSize = None, nproc = None, seed = None,
      algorithmOptions = Some ''-p 8''\<rparr> =
   Inr \<lparr>maxHits = None, minAnchorSize = None, nproc = Some (IntV 8), seed = None,
      algorithmOptions = Some ''''\<rparr> \<and>
   resolveAlgorithmOptions
     \<lparr>maxHits = None, minAnchorSize = None, nproc = Some (IntV 4), seed = None,
      algorithmOptions = Some ''-p 8''\<rparr> =
   Inl (ValueError (wrapMsg ''-p 8'') (AttributeError ''npoc''),
     \<lparr>maxHits = None, minAnchorSize = None, nproc = Some (IntV 4), seed = None,
      algorithmOptions = Some ''-p 8''\<rparr>)"
proof -
  let ?a = "\<lparr>maxHits = None, minAnchorSize = None, nproc = None, seed = None,
      algorithmOptions = Some ''-p 8''\<rparr>"
  let ?b = "\<lparr>maxHits = None, minAnchorSize = None, nproc = Some (IntV 4), seed = None,
      algorithmOptions = Some ''-p 8''\<rparr>"
  have v: "int_item [''-p'', ''8''] (0 + 1) = Inr 8"
    by (simp add: eval_defs)
  have "resolveAlgorithmOptions ?a =
      resolveItems (?a\<lparr>nproc := Some (IntV 8)\<rparr>) ''-p 8'' (del_slice 0 (0 + 2) [''-p'', ''8''])"
    using p_flag_sets_nproc_only_when_unset [of ?a "''-p 8''" 0 ?a 0 "[''-p'', ''8'']" 8] v
    by simp
  then have a: "resolveAlgorithmOptions ?a = Inr (?a\<lparr>nproc := Some (IntV 8), algorithmOptions := Some ''''\<rparr>)"
    by (simp add: resolveItems_def del_slice_def scan.simps)
  have b: "resolveAlgorithmOptions ?b = Inl (ValueError (wrapMsg ''-p 8'') (AttributeError ''npoc''), ?b)"
    using p_flag_sets_nproc_only_when_unset [of ?b "''-p 8''" 0 ?b 0 "[''-p'', ''8'']" 8] v
    by simp
  from a b show ?thesis by simp
qed

section \<open>The \<^verbatim>\<open>-k\<close> and \<^verbatim>\<open>-L\<close> flags\<close>

text \<open>
  \<^bold>\<open>C2\<close>. The property: with \<open>maxHits\<close> unset and a \<^verbatim>\<open>-k\<close> token followed by an integer
  token \<open>N\<close>, the reconciliation ends with \<open>maxHits = N\<close> and with no \<^verbatim>\<open>-k\<close> token left
  in \<open>algorithmOptions\<close>.

  The source deletes the two tokens and no \<^verbatim>\<open>-k\<close> token is left, but nothing assigns
  \<open>maxHits\<close>: whenever the scan comes to such a \<^verbatim>\<open>-k\<close>, the reconciliation goes on as
  if the two tokens had not been there, and every result still has \<open>maxHits\<close> unset.
  The value \<open>N\<close> is lost. The \<^verbatim>\<open>-p\<close> branch beside it does assign its field.
\<close>

theorem k_flag_leaves_maxHits_unset:
  assumes "algorithmOptions opts = Some ao"
      and "loopSteps n opts 0 (split_sp ao) = Some (opts', i, items)"
      and "i < length items" and "items ! i = ''-k''" and "int_item items (i + 1) = Inr N"
      and "maxHits opts = None"
  shows "resolveAlgorithmOptions opts = resolveItems opts' ao (del_slice i (i + 2) items) \<and>
         (\<forall>r. resolveAlgorithmOptions opts = Inr r \<longrightarrow>
            maxHits r = None \<and>
            (\<exists>ao'. algorithmOptions r = Some ao' \<and> ''-k'' \<notin> set (split_sp ao')))"
proof (intro conjI allI impI)
  have "maxHits opts' = None" using reached_fields(1) [OF assms(2)] assms(6) by simp
  then have body: "loopBody opts' i items = Next opts' i (del_slice i (i + 2) items)"
    using assms(4,5) by (simp add: loopBody_def)
  from loopSteps_snoc [OF assms(2,3) body]
  show "resolveAlgorithmOptions opts = resolveItems opts' ao (del_slice i (i + 2) items)"
    by (rule reached_resolve(2) [OF assms(1)])
next
  fix r assume r: "resolveAlgorithmOptions opts = Inr r"
  from resolve_fields(1) [OF r] assms(6) show "maxHits r = None" by simp
  from resolve_result_tokens [OF r assms(1)] obtain ao' where
    "algorithmOptions r = Some ao'" and "\<forall>t\<in>set (split_sp ao'). \<not> recognised t" by blast
  then show "\<exists>ao'. algorithmOptions r = Some ao' \<and> ''-k'' \<notin> set (split_sp ao')"
    by (auto simp: recognised_def)
qed

theorem k_flag_witness:
  "resolveAlgorithmOptions
     \<lparr>maxHits = None, minAnchorSize = None, nproc = None, seed = None,
      algorithmOptions = Some ''-k 5''\<rparr> =
   Inr \<lparr>maxHits = None, minAnchorSize = None, nproc = None, seed = None,
      algorithmOptions = Some ''''\<rparr>"
proof -
  let ?a = "\<lparr>maxHits = None, minAnchorSize = None, nproc = None, seed = None,
      algorithmOptions = Some ''-k 5''\<rparr>"
  have v: "int_item [''-k'', ''5''] (0 + 1) = Inr 5"
    by (simp add: eval_defs)
  have "resolveAlgorithmOptions ?a = resolveItems ?a ''-k 5'' (del_slice 0 (0 + 2) [''-k'', ''5''])"
    using k_flag_leaves_maxHits_unset [of ?a "''-k 5''" 0 ?a 0 "[''-k'', ''5'']" 5] v
    by simp
  then show ?thesis
    by (simp add: resolveItems_def del_slice_def scan.simps)
qed

text \<open>
  \<^bold>\<open>C4\<close>. The property: with \<open>maxHits\<close> set to \<open>M\<close> and a \<^verbatim>\<open>-k\<close> token followed by an
  integer token \<open>N \<noteq> M\<close>, the reconciliation raises an error that names the flag and
  the option; the same holds for \<^verbatim>\<open>-L\<close> and \<open>minAnchorSize\<close>.

  This holds at every \<^verbatim>\<open>-k\<close> (or \<^verbatim>\<open>-L\<close>) token the scan comes to (by
  \<open>reached_after_passive_prefix\<close>, at the first token of the string that the loop acts
  on, for one): the caller receives
  the \<^verbatim>\<open>ValueError\<close> of the \<^verbatim>\<open>except\<close> clause, whose text is \<open>wrapMsg ao\<close> followed by
  the conflict message, and the options object keeps its raw string and its
  \<open>maxHits\<close>, \<open>minAnchorSize\<close> and \<open>seed\<close>. The reconciler reads and changes the options
  object only; it calls no file or process operation, so its model has no other state.

  The scan does not come to a \<^verbatim>\<open>-k\<close> or \<^verbatim>\<open>-L\<close> token that stands right after an
  ignored binary flag at which the scan stands: that pass raises nothing and deletes
  the flag and the token after it, and the outcome of the reconciliation is that of
  the list without the two tokens. In \<^verbatim>\<open>-x -x -k 5\<close> the scan stands on the first
  \<^verbatim>\<open>-x\<close> only, which takes the second one with it; the scan then comes to \<^verbatim>\<open>-k\<close>, and
  the conflict is raised.
\<close>

theorem conflicting_flag_raises:
  assumes "algorithmOptions opts = Some ao"
      and "loopSteps n opts 0 (split_sp ao) = Some (opts', i, items)"
      and "i < length items"
  shows "(items ! i = ''-k'' \<and> int_item items (i + 1) = Inr N \<and>
          maxHits opts = Some m \<and> int_of_pyval m = Inr M \<and> M \<noteq> N \<longrightarrow>
            resolveAlgorithmOptions opts =
              Inl (ValueError (wrapMsg ao) (Conflict kConflictMsg), opts')) \<and>
         (items ! i = ''-L'' \<and> int_item items (i + 1) = Inr N \<and>
          minAnchorSize opts = Some m \<and> int_of_pyval m = Inr M \<and> M \<noteq> N \<longrightarrow>
            resolveAlgorithmOptions opts =
              Inl (ValueError (wrapMsg ao) (Conflict lConflictMsg), opts')) \<and>
         (items ! i \<in> set ignoredBinaryOptions \<and> i + 1 < length items \<and>
          (items ! (i + 1) = ''-k'' \<or> items ! (i + 1) = ''-L'') \<longrightarrow>
            loopBody opts' i items = Next opts' i (take i items @ drop (i + 2) items) \<and>
            loopSteps (Suc n) opts 0 (split_sp ao) =
              Some (opts', i, take i items @ drop (i + 2) items) \<and>
            resolveAlgorithmOptions opts =
              resolveItems opts' ao (take i items @ drop (i + 2) items)) \<and>
         algorithmOptions opts' = Some ao \<and> maxHits opts' = maxHits opts \<and>
         minAnchorSize opts' = minAnchorSize opts \<and> seed opts' = seed opts"
proof (intro conjI impI)
  assume k: "items ! i = ''-k'' \<and> int_item items (i + 1) = Inr N \<and>
      maxHits opts = Some m \<and> int_of_pyval m = Inr M \<and> M \<noteq> N"
  then have "maxHits opts' = Some m" using reached_fields(1) [OF assms(2)] by simp
  with k have "loopBody opts' i items = Raise (Conflict kConflictMsg)"
    by (simp add: loopBody_def)
  then have "scan opts' i items = Inl (Conflict kConflictMsg, opts')"
    using assms(3) by (simp add: scan.simps [of opts' i items])
  with reached_resolve(1) [OF assms(1,2)]
  show "resolveAlgorithmOptions opts = Inl (ValueError (wrapMsg ao) (Conflict kConflictMsg), opts')"
    using assms(1) by (simp add: resolveAlgorithmOptions_def resolveItems_def)
next
  assume l: "items ! i = ''-L'' \<and> int_item items (i + 1) = Inr N \<and>
      minAnchorSize opts = Some m \<and> int_of_pyval m = Inr M \<and> M \<noteq> N"
  then have "minAnchorSize opts' = Some m" using reached_fields(2) [OF assms(2)] by simp
  with l have "loopBody opts' i items = Raise (Conflict lConflictMsg)"
    by (simp add: loopBody_def)
  then have "scan opts' i items = Inl (Conflict lConflictMsg, opts')"
    using assms(3) by (simp add: scan.simps [of opts' i items])
  with reached_resolve(1) [OF assms(1,2)]
  show "resolveAlgorithmOptions opts = Inl (ValueError (wrapMsg ao) (Conflict lConflictMsg), opts')"
    using assms(1) by (simp add: resolveAlgorithmOptions_def resolveItems_def)
next
  assume e: "items ! i \<in> set ignoredBinaryOptions \<and> i + 1 < length items \<and>
      (items ! (i + 1) = ''-k'' \<or> items ! (i + 1) = ''-L'')"
  then have "loopBody opts' i items = Next opts' i (del_slice i (i + 2) items)"
    by (intro loopBody_binary_at) simp
  then show body: "loopBody opts' i items = Next opts' i (take i items @ drop (i + 2) items)"
    by (simp add: del_slice_def)
  from loopSteps_snoc [OF assms(2,3) body]
  show st: "loopSteps (Suc n) opts 0 (split_sp ao) =
      Some (opts', i, take i items @ drop (i + 2) items)" .
  then show "resolveAlgorithmOptions opts =
      resolveItems opts' ao (take i items @ drop (i + 2) items)"
    by (rule reached_resolve(2) [OF assms(1)])
qed (use reached_fields [OF assms(2)] assms(1) in simp_all)

theorem conflicting_flag_witness:
  "resolveAlgorithmOptions
     \<lparr>maxHits = Some (IntV 3), minAnchorSize = None, nproc = None, seed = None,
      algorithmOptions = Some ''-k 5''\<rparr> =
   Inl (ValueError (wrapMsg ''-k 5'') (Conflict kConflictMsg),
     \<lparr>maxHits = Some (IntV 3), minAnchorSize = None, nproc = None, seed = None,
      algorithmOptions = Some ''-k 5''\<rparr>) \<and>
   resolveAlgorithmOptions
     \<lparr>maxHits = None, minAnchorSize = Some (StrV ''12''), nproc = None, seed = None,
      algorithmOptions = Some ''--local -L 20''\<rparr> =
   Inl (ValueError (wrapMsg ''--local -L 20'') (Conflict lConflictMsg),
     \<lparr>maxHits = None, minAnchorSize = Some (StrV ''12''), nproc = None, seed = None,
      algorithmOptions = Some ''--local -L 20''\<rparr>) \<and>
   resolveAlgorithmOptions
     \<lparr>maxHits = None, minAnchorSize = Some (StrV ''12''), nproc = None, seed = None,
      algorithmOptions = Some ''-S -L 20''\<rparr> =
   Inr \<lparr>maxHits = None, minAnchorSize = Some (StrV ''12''), nproc = None, seed = None,
      algorithmOptions = Some ''20''\<rparr> \<and>
   resolveAlgorithmOptions
     \<lparr>maxHits = Some (IntV 3), minAnchorSize = None, nproc = None, seed = None,
      algorithmOptions = Some ''-x -x -k 5''\<rparr> =
   Inl (ValueError (wrapMsg ''-x -x -k 5'') (Conflict kConflictMsg),
     \<lparr>maxHits = Some (IntV 3), minAnchorSize = None, nproc = None, seed = None,
      algorithmOptions = Some ''-x -x -k 5''\<rparr>)"
proof -
  let ?a = "\<lparr>maxHits = Some (IntV 3), minAnchorSize = None, nproc = None, seed = None,
      algorithmOptions = Some ''-k 5''\<rparr>"
  let ?b = "\<lparr>maxHits = None, minAnchorSize = Some (StrV ''12''), nproc = None, seed = None,
      algorithmOptions = Some ''--local -L 20''\<rparr>"
  let ?c = "\<lparr>maxHits = None, minAnchorSize = Some (StrV ''12''), nproc = None, seed = None,
      algorithmOptions = Some ''-S -L 20''\<rparr>"
  let ?d = "\<lparr>maxHits = Some (IntV 3), minAnchorSize = None, nproc = None, seed = None,
      algorithmOptions = Some ''-x -x -k 5''\<rparr>"
  have va: "int_item [''-k'', ''5''] (0 + 1) = Inr 5"
    by (simp add: eval_defs)
  have vb: "int_item [''--local'', ''-L'', ''20''] (1 + 1) = Inr 20"
    by (simp add: eval_defs)
  have sb: "loopSteps (Suc 0) ?b 0 (split_sp ''--local -L 20'') = Some (?b, 1, [''--local'', ''-L'', ''20''])"
    by (simp add: eval_defs)
  have sd: "loopSteps (Suc 0) ?d 0 (split_sp ''-x -x -k 5'') = Some (?d, 0, [''-k'', ''5''])"
    by (simp add: eval_defs)
  have mb: "int_of_pyval (StrV ''12'') = Inr 12"
    by (simp add: eval_defs)
  have a: "resolveAlgorithmOptions ?a = Inl (ValueError (wrapMsg ''-k 5'') (Conflict kConflictMsg), ?a)"
    using conflicting_flag_raises [of ?a "''-k 5''" 0 ?a 0 "[''-k'', ''5'']" 5 "IntV 3" 3] va
    by simp
  have b: "resolveAlgorithmOptions ?b = Inl (ValueError (wrapMsg ''--local -L 20'') (Conflict lConflictMsg), ?b)"
    using conflicting_flag_raises [of ?b "''--local -L 20''" "Suc 0" ?b 1 "[''--local'', ''-L'', ''20'']" 20 "StrV ''12''" 12] vb sb mb
    by simp
  have pc1: "algorithmOptions ?c = Some ''-S -L 20''" by simp
  have pc2: "loopSteps 0 ?c 0 (split_sp ''-S -L 20'') = Some (?c, 0, [''-S'', ''-L'', ''20''])" by simp
  have pc3: "0 < length [''-S'', ''-L'', ''20'']" by simp
  have pc4: "[''-S'', ''-L'', ''20''] ! 0 \<in> set ignoredBinaryOptions \<and>
      0 + 1 < length [''-S'', ''-L'', ''20''] \<and>
      ([''-S'', ''-L'', ''20''] ! (0 + 1) = ''-k'' \<or> [''-S'', ''-L'', ''20''] ! (0 + 1) = ''-L'')"
    by (simp add: ignoredBinaryOptions_def)
  from conflicting_flag_raises [OF pc1 pc2 pc3] pc4
  have "resolveAlgorithmOptions ?c = resolveItems ?c ''-S -L 20''
      (take 0 [''-S'', ''-L'', ''20''] @ drop (0 + 2) [''-S'', ''-L'', ''20''])"
    by blast
  then have c: "resolveAlgorithmOptions ?c = Inr (?c\<lparr>algorithmOptions := Some ''20''\<rparr>)"
    by (simp add: eval_defs)
  have d: "resolveAlgorithmOptions ?d = Inl (ValueError (wrapMsg ''-x -x -k 5'') (Conflict kConflictMsg), ?d)"
    using conflicting_flag_raises [of ?d "''-x -x -k 5''" "Suc 0" ?d 0 "[''-k'', ''5'']" 5 "IntV 3" 3] va sd
    by simp
  from a b c d show ?thesis by simp
qed

text \<open>
  \<^bold>\<open>C4\<close> as stated, for every string that holds \<^verbatim>\<open>-k N\<close> with \<open>N \<noteq> M\<close>, fails: the scan
  does not come to every \<^verbatim>\<open>-k\<close> token of the string. Here the scan stands on \<^verbatim>\<open>-x\<close>,
  the \<^verbatim>\<open>-k\<close> after it is deleted as the value of \<^verbatim>\<open>-x\<close>, and no conflict is raised.
\<close>

theorem eaten_k_flag_counterexample:
  "resolveAlgorithmOptions
     \<lparr>maxHits = Some (IntV 3), minAnchorSize = None, nproc = None, seed = None,
      algorithmOptions = Some ''-x -k 5''\<rparr> =
   Inr \<lparr>maxHits = Some (IntV 3), minAnchorSize = None, nproc = None, seed = None,
      algorithmOptions = Some ''5''\<rparr>"
  by (simp add: eval_defs)

section \<open>The ignored flags\<close>

text \<open>
  \<^bold>\<open>C3\<close>. The property as stated: a token of \<open>ignoredBinaryOptions\<close> and the token after
  it stay in the token list, so both still stand in \<open>algorithmOptions\<close> after the
  reconciliation. The source does the opposite: the branch for these flags is
  \<^verbatim>\<open>pass\<close>, and control falls through to \<^verbatim>\<open>del items[i:i+2]\<close>.

  What holds: whenever the scan comes to such a flag, the flag and the token after it
  (when there is one) are deleted, no error is raised, the options object is not
  changed by that pass, and the scan goes on at the same index; the outcome of the
  reconciliation is that of the list without the two tokens. After a successful
  reconciliation no token of \<open>algorithmOptions\<close> is an ignored binary flag.
\<close>

theorem ignored_binary_flag_removed_with_value:
  assumes "algorithmOptions opts = Some ao"
      and "loopSteps n opts 0 (split_sp ao) = Some (opts', i, items)"
      and "i < length items" and "items ! i \<in> set ignoredBinaryOptions"
  shows "loopSteps (Suc n) opts 0 (split_sp ao) = Some (opts', i, take i items @ drop (i + 2) items) \<and>
         resolveAlgorithmOptions opts = resolveItems opts' ao (take i items @ drop (i + 2) items) \<and>
         (\<forall>r. resolveAlgorithmOptions opts = Inr r \<longrightarrow>
            (\<exists>ao'. algorithmOptions r = Some ao' \<and>
               (\<forall>t\<in>set (split_sp ao'). t \<notin> set ignoredBinaryOptions)))"
proof (intro conjI allI impI)
  have "loopBody opts' i items = Next opts' i (del_slice i (i + 2) items)"
    using assms(4) by (rule loopBody_binary_at)
  then have body: "loopBody opts' i items = Next opts' i (take i items @ drop (i + 2) items)"
    by (simp add: del_slice_def)
  from loopSteps_snoc [OF assms(2,3) body]
  show st: "loopSteps (Suc n) opts 0 (split_sp ao) = Some (opts', i, take i items @ drop (i + 2) items)" .
  then show "resolveAlgorithmOptions opts = resolveItems opts' ao (take i items @ drop (i + 2) items)"
    by (rule reached_resolve(2) [OF assms(1)])
next
  fix r assume r: "resolveAlgorithmOptions opts = Inr r"
  from resolve_result_tokens [OF r assms(1)] obtain ao' where
    "algorithmOptions r = Some ao'" and "\<forall>t\<in>set (split_sp ao'). \<not> recognised t" by blast
  then show "\<exists>ao'. algorithmOptions r = Some ao' \<and> (\<forall>t\<in>set (split_sp ao'). t \<notin> set ignoredBinaryOptions)"
    by (auto simp: recognised_def)
qed

theorem ignored_binary_flag_witness:
  "resolveAlgorithmOptions
     \<lparr>maxHits = None, minAnchorSize = None, nproc = None, seed = None,
      algorithmOptions = Some ''--local -S out.sam -a''\<rparr> =
   Inr \<lparr>maxHits = None, minAnchorSize = None, nproc = None, seed = None,
      algorithmOptions = Some ''--local -a''\<rparr>"
proof -
  let ?a = "\<lparr>maxHits = None, minAnchorSize = None, nproc = None, seed = None,
      algorithmOptions = Some ''--local -S out.sam -a''\<rparr>"
  have s: "loopSteps (Suc 0) ?a 0 (split_sp ''--local -S out.sam -a'') =
      Some (?a, 1, [''--local'', ''-S'', ''out.sam'', ''-a''])"
    by (simp add: eval_defs)
  have "resolveAlgorithmOptions ?a = resolveItems ?a ''--local -S out.sam -a'' [''--local'', ''-a'']"
    using ignored_binary_flag_removed_with_value [of ?a "''--local -S out.sam -a''" "Suc 0" ?a 1
        "[''--local'', ''-S'', ''out.sam'', ''-a'']"] s
    by (simp add: ignoredBinaryOptions_def)
  then show ?thesis
    by (simp add: eval_defs)
qed

text \<open>\<^bold>\<open>C3\<close> as stated fails: \<^verbatim>\<open>-x idx\<close> does not stay in the string.\<close>

theorem ignored_binary_flag_counterexample:
  "resolveAlgorithmOptions
     \<lparr>maxHits = None, minAnchorSize = None, nproc = None, seed = None,
      algorithmOptions = Some ''-x idx --local''\<rparr> =
   Inr \<lparr>maxHits = None, minAnchorSize = None, nproc = None, seed = None,
      algorithmOptions = Some ''--local''\<rparr>"
  by (simp add: eval_defs)

text \<open>
  \<^bold>\<open>C5\<close>. The property as stated: every string that holds \<^verbatim>\<open>--version\<close> or \<^verbatim>\<open>--help\<close>
  and no conflicting \<^verbatim>\<open>-k\<close>/\<^verbatim>\<open>-L\<close> pair is reconciled without an error, that single
  token is removed, and the scan resumes at the same index.

  What holds: whenever the scan comes to such a token, exactly that token is
  deleted, the options object is not changed and the scan goes on at the same index,
  so that the outcome of the reconciliation is that of the list without the token.
  When every token of the string is a unitary flag or a token the loop does not act
  on, the reconciliation succeeds and returns the string without its unitary flags,
  adjacent ones included, with all other fields as they were.
\<close>

theorem unitary_flag_removed_alone:
  assumes "algorithmOptions opts = Some ao"
      and "loopSteps n opts 0 (split_sp ao) = Some (opts', i, items)"
      and "i < length items" and "items ! i \<in> set ignoredUnitaryOptions"
  shows "loopSteps (Suc n) opts 0 (split_sp ao) = Some (opts', i, take i items @ drop (i + 1) items) \<and>
         resolveAlgorithmOptions opts = resolveItems opts' ao (take i items @ drop (i + 1) items) \<and>
         ((\<forall>t\<in>set (split_sp ao). t \<in> set ignoredUnitaryOptions \<or> \<not> recognised t) \<longrightarrow>
            resolveAlgorithmOptions opts =
              Inr (opts\<lparr>algorithmOptions :=
                Some (join_sp (filter (\<lambda>t. t \<notin> set ignoredUnitaryOptions) (split_sp ao)))\<rparr>))"
proof (intro conjI impI)
  have "loopBody opts' i items = Next opts' i (del_slice i (i + 1) items)"
    using assms(4) by (rule loopBody_unitary_at)
  then have body: "loopBody opts' i items = Next opts' i (take i items @ drop (i + 1) items)"
    by (simp add: del_slice_def)
  from loopSteps_snoc [OF assms(2,3) body]
  show st: "loopSteps (Suc n) opts 0 (split_sp ao) = Some (opts', i, take i items @ drop (i + 1) items)" .
  then show "resolveAlgorithmOptions opts = resolveItems opts' ao (take i items @ drop (i + 1) items)"
    by (rule reached_resolve(2) [OF assms(1)])
next
  assume "\<forall>t\<in>set (split_sp ao). t \<in> set ignoredUnitaryOptions \<or> \<not> recognised t"
  from scan_unitary_passive [OF this, of opts "[]"]
  show "resolveAlgorithmOptions opts =
      Inr (opts\<lparr>algorithmOptions :=
        Some (join_sp (filter (\<lambda>t. t \<notin> set ignoredUnitaryOptions) (split_sp ao)))\<rparr>)"
    using assms(1) by (simp add: resolveAlgorithmOptions_def resolveItems_def)
qed

theorem unitary_flag_witness:
  "resolveAlgorithmOptions
     \<lparr>maxHits = None, minAnchorSize = None, nproc = None, seed = None,
      algorithmOptions = Some ''--help --help -a --version''\<rparr> =
   Inr \<lparr>maxHits = None, minAnchorSize = None, nproc = None, seed = None,
      algorithmOptions = Some ''-a''\<rparr> \<and>
   loopSteps (Suc 0)
     \<lparr>maxHits = None, minAnchorSize = None, nproc = None, seed = None,
      algorithmOptions = Some ''--help --help -a --version''\<rparr> 0
     (split_sp ''--help --help -a --version'') =
   Some (\<lparr>maxHits = None, minAnchorSize = None, nproc = None, seed = None,
      algorithmOptions = Some ''--help --help -a --version''\<rparr>, 0,
      [''--help'', ''-a'', ''--version''])"
proof -
  let ?a = "\<lparr>maxHits = None, minAnchorSize = None, nproc = None, seed = None,
      algorithmOptions = Some ''--help --help -a --version''\<rparr>"
  let ?s = "''--help --help -a --version''"
  let ?l = "[''--help'', ''--help'', ''-a'', ''--version'']"
  have p1: "algorithmOptions ?a = Some ?s" by simp
  have p2: "loopSteps 0 ?a 0 (split_sp ?s) = Some (?a, 0, ?l)" by simp
  have p3: "0 < length ?l" by simp
  have p4: "?l ! 0 \<in> set ignoredUnitaryOptions" by (simp add: ignoredUnitaryOptions_def)
  have h: "\<forall>t\<in>set (split_sp ?s). t \<in> set ignoredUnitaryOptions \<or> \<not> recognised t"
    by (simp add: ignoredUnitaryOptions_def ignoredBinaryOptions_def recognised_def)
  have f: "join_sp (filter (\<lambda>t. t \<notin> set ignoredUnitaryOptions) (split_sp ?s)) = ''-a''"
    by (simp add: ignoredUnitaryOptions_def)
  note t = unitary_flag_removed_alone [OF p1 p2 p3 p4]
  from t have "loopSteps (Suc 0) ?a 0 (split_sp ?s) = Some (?a, 0, take 0 ?l @ drop (0 + 1) ?l)"
    by (rule conjunct1)
  then have A: "loopSteps (Suc 0) ?a 0 (split_sp ?s) = Some (?a, 0, [''--help'', ''-a'', ''--version''])"
    by (simp del: loopSteps.simps)
  from t h have "resolveAlgorithmOptions ?a =
      Inr (?a\<lparr>algorithmOptions :=
        Some (join_sp (filter (\<lambda>t. t \<notin> set ignoredUnitaryOptions) (split_sp ?s)))\<rparr>)"
    by blast
  with f have B: "resolveAlgorithmOptions ?a = Inr (?a\<lparr>algorithmOptions := Some ''-a''\<rparr>)"
    by simp
  from A B show ?thesis by (simp del: loopSteps.simps)
qed

text \<open>
  \<^bold>\<open>C5\<close> as stated fails: the reconciliation of a string with a unitary flag and no
  conflicting pair can still raise. Here the value of \<^verbatim>\<open>-k\<close> is not an integer.
\<close>

theorem malformed_flag_beside_help_counterexample:
  "resolveAlgorithmOptions
     \<lparr>maxHits = None, minAnchorSize = None, nproc = None, seed = None,
      algorithmOptions = Some ''-k abc --help''\<rparr> =
   Inl (ValueError (wrapMsg ''-k abc --help'') (InvalidLiteral ''abc''),
     \<lparr>maxHits = None, minAnchorSize = None, nproc = None, seed = None,
      algorithmOptions = Some ''-k abc --help''\<rparr>)"
  by (simp add: eval_defs)

section \<open>Index paths\<close>

lemma rfind_last: "c \<notin> set post \<Longrightarrow> rfind c (pre @ c # post) = int (length pre)"
proof -
  assume a: "c \<notin> set post"
  have "takeWhile (\<lambda>x. x \<noteq> c) (rev post @ c # rev pre) =
      rev post @ takeWhile (\<lambda>x. x \<noteq> c) (c # rev pre)"
    by (rule takeWhile_append2) (use a in auto)
  then have "takeWhile (\<lambda>x. x \<noteq> c) (rev post @ c # rev pre) = rev post"
    by simp
  then show ?thesis by (simp add: rfind_def)
qed

lemma rfind_absent: "c \<notin> set s \<Longrightarrow> rfind c s = - 1"
  by (simp add: rfind_def)

lemma basename_after_slash:
  "CHR ''/'' \<notin> set name \<Longrightarrow> basename (dir @ CHR ''/'' # name) = name"
proof -
  assume "CHR ''/'' \<notin> set name"
  then have "rfind CHR ''/'' (dir @ CHR ''/'' # name) = int (length dir)" by (rule rfind_last)
  moreover have "nat (int (length dir) + 1) = Suc (length dir)" by simp
  ultimately show ?thesis by (simp add: basename_def)
qed

lemma splitext_stem:
  assumes "CHR ''/'' \<notin> set stem" and "CHR ''/'' \<notin> set ext" and "CHR ''.'' \<notin> set ext"
      and "\<exists>c\<in>set stem. c \<noteq> CHR ''.''"
  shows "splitext (stem @ CHR ''.'' # ext) = (stem, CHR ''.'' # ext)"
proof -
  have s: "rfind CHR ''/'' (stem @ CHR ''.'' # ext) = - 1"
    using assms(1,2) by (simp add: rfind_absent)
  have d: "rfind CHR ''.'' (stem @ CHR ''.'' # ext) = int (length stem)"
    using assms(3) by (rule rfind_last)
  from assms(4) have "list_ex (\<lambda>c. c \<noteq> CHR ''.'') stem" by (simp add: list_ex_iff)
  with s d show ?thesis by (simp add: splitext_def)
qed

text \<open>
  \<^bold>\<open>C7\<close>. Index path resolution is a function of its arguments alone. The base name
  is the working directory joined with the stem of the reference file:
  \<^verbatim>\<open>/tmp\<close> and \<^verbatim>\<open>/data/ref.fasta\<close> give \<^verbatim>\<open>/tmp/ref\<close>, and a reference \<open>dir/stem.ext\<close>
  (no slash in \<open>stem\<close> or \<open>ext\<close>, no dot in \<open>ext\<close>, \<open>stem\<close> not made of dots only) gives
  the working directory joined with \<open>stem\<close>. For every base name the index files are
  six paths: the base name, a dot, and the suffixes \<^verbatim>\<open>1.bt2\<close>, \<^verbatim>\<open>2.bt2\<close>, \<^verbatim>\<open>3.bt2\<close>,
  \<^verbatim>\<open>4.bt2\<close>, \<^verbatim>\<open>rev.1.bt2\<close>, \<^verbatim>\<open>rev.2.bt2\<close>, in this order.
\<close>

theorem index_paths:
  "bt2BaseName ''/tmp'' ''/data/ref.fasta'' = ''/tmp/ref'' \<and>
   bt2BaseName tempDir refFile = path_join tempDir (fst (splitext (basename refFile))) \<and>
   (CHR ''/'' \<notin> set stem \<and> (\<exists>c\<in>set stem. c \<noteq> CHR ''.'') \<and>
    CHR ''/'' \<notin> set ext \<and> CHR ''.'' \<notin> set ext \<longrightarrow>
      bt2BaseName tempDir (dir @ CHR ''/'' # stem @ CHR ''.'' # ext) = path_join tempDir stem \<and>
      (tempDir \<noteq> [] \<and> last tempDir \<noteq> CHR ''/'' \<longrightarrow> path_join tempDir stem = tempDir @ CHR ''/'' # stem)) \<and>
   bt2IndexFiles baseName =
     [baseName @ ''.1.bt2'', baseName @ ''.2.bt2'', baseName @ ''.3.bt2'', baseName @ ''.4.bt2'',
      baseName @ ''.rev.1.bt2'', baseName @ ''.rev.2.bt2''] \<and>
   length (bt2IndexFiles baseName) = 6"
proof (intro conjI impI)
  show "bt2BaseName ''/tmp'' ''/data/ref.fasta'' = ''/tmp/ref''"
    by (simp add: bt2BaseName_def path_join_def splitext_def basename_def rfind_def)
  show "bt2BaseName tempDir refFile = path_join tempDir (fst (splitext (basename refFile)))"
    by (simp add: bt2BaseName_def)
  show "bt2IndexFiles baseName =
     [baseName @ ''.1.bt2'', baseName @ ''.2.bt2'', baseName @ ''.3.bt2'', baseName @ ''.4.bt2'',
      baseName @ ''.rev.1.bt2'', baseName @ ''.rev.2.bt2'']"
    by (simp add: bt2IndexFiles_def join_dot_def)
  show "length (bt2IndexFiles baseName) = 6"
    by (simp add: bt2IndexFiles_def)
next
  assume a: "CHR ''/'' \<notin> set stem \<and> (\<exists>c\<in>set stem. c \<noteq> CHR ''.'') \<and>
    CHR ''/'' \<notin> set ext \<and> CHR ''.'' \<notin> set ext"
  then have "basename (dir @ CHR ''/'' # stem @ CHR ''.'' # ext) = stem @ CHR ''.'' # ext"
    by (intro basename_after_slash) simp
  moreover from a have "splitext (stem @ CHR ''.'' # ext) = (stem, CHR ''.'' # ext)"
    by (intro splitext_stem) simp_all
  ultimately show "bt2BaseName tempDir (dir @ CHR ''/'' # stem @ CHR ''.'' # ext) = path_join tempDir stem"
    by (simp add: bt2BaseName_def)
  assume "tempDir \<noteq> [] \<and> last tempDir \<noteq> CHR ''/''"
  moreover from a have "stem \<noteq> [] \<and> hd stem \<noteq> CHR ''/''" by (cases stem) auto
  ultimately show "path_join tempDir stem = tempDir @ CHR ''/'' # stem"
    by (simp add: path_join_def)
qed

theorem index_paths_witness:
  "bt2BaseName ''/tmp'' (''/data'' @ CHR ''/'' # ''ref'' @ CHR ''.'' # ''fasta'') = ''/tmp'' @ CHR ''/'' # ''ref'' \<and>
   bt2IndexFiles ''/tmp/ref'' =
     [''/tmp/ref.1.bt2'', ''/tmp/ref.2.bt2'', ''/tmp/ref.3.bt2'', ''/tmp/ref.4.bt2'',
      ''/tmp/ref.rev.1.bt2'', ''/tmp/ref.rev.2.bt2'']"
proof -
  note t = index_paths [of "''/tmp''" "''/data/ref.fasta''" "''ref''" "''fasta''" "''/data''" "''/tmp/ref''"]
  have h: "CHR ''/'' \<notin> set ''ref'' \<and> (\<exists>c\<in>set ''ref''. c \<noteq> CHR ''.'') \<and>
    CHR ''/'' \<notin> set ''fasta'' \<and> CHR ''.'' \<notin> set ''fasta''" by simp
  have g: "''/tmp'' \<noteq> [] \<and> last ''/tmp'' \<noteq> CHR ''/''" by simp
  from t h g have "bt2BaseName ''/tmp'' (''/data'' @ CHR ''/'' # ''ref'' @ CHR ''.'' # ''fasta'') = ''/tmp'' @ CHR ''/'' # ''ref''"
    by metis
  moreover from t have "bt2IndexFiles ''/tmp/ref'' =
     [''/tmp/ref'' @ ''.1.bt2'', ''/tmp/ref'' @ ''.2.bt2'', ''/tmp/ref'' @ ''.3.bt2'', ''/tmp/ref'' @ ''.4.bt2'',
      ''/tmp/ref'' @ ''.rev.1.bt2'', ''/tmp/ref'' @ ''.rev.2.bt2'']" by blast
  ultimately show ?thesis by simp
qed

section \<open>The command line\<close>

lemma toCmd_segments:
  "toCmd opts files tfm =
     ''bowtie2 '' @
     (if is_given (maxHits opts) then '' -k '' @ format_val (the (maxHits opts)) else []) @
     (if is_given (nproc opts) then '' -p '' @ format_val (the (nproc opts)) else []) @
     (case algorithmOptions opts of None \<Rightarrow> [] | Some ao \<Rightarrow> '' '' @ ao @ '' '') @
     (if is_given (seed opts) then '' --seed '' @ format_val (the (seed opts)) @ '' '' else []) @
     ''-x '' @ bt2BaseName (defaultRootDir tfm) (targetFileName files) @
     '' -f '' @ queryFileName files @ '' -S '' @ alignerSamOut files @ '' ''"
  by (simp add: toCmd_def Let_def split: option.splits)

lemma str_int_5: "str_int 5 = ''5''" and str_int_4: "str_int 4 = ''4''" and str_int_42: "str_int 42 = ''42''"
  by (simp_all add: str_int_def str_nat.simps digit_char_def)

text \<open>
  \<^bold>\<open>C6\<close>. For \<open>maxHits = 5\<close>, \<open>nproc = 4\<close>, \<open>algorithmOptions = ""\<close>, \<open>seed = 42\<close>, the
  files \<^verbatim>\<open>/r/ref.fa\<close>, \<^verbatim>\<open>/q/q.fa\<close>, \<^verbatim>\<open>/o/out.sam\<close> and the working directory \<^verbatim>\<open>/tmp\<close>,
  the command is the program name, \<^verbatim>\<open>-k 5\<close>, \<^verbatim>\<open>-p 4\<close>, the empty \<open>algorithmOptions\<close>
  segment, \<^verbatim>\<open>--seed 42\<close> and \<^verbatim>\<open>-x /tmp/ref -f /q/q.fa -S /o/out.sam\<close>, in this order.
  In general the command is made of these segments in this order; the segments of
  \<open>maxHits\<close>, \<open>nproc\<close> and \<open>seed\<close> are there exactly when the field is set and not the
  empty string, the segment of \<open>algorithmOptions\<close> whenever the field is set.
\<close>

theorem command_order:
  "toCmd \<lparr>maxHits = Some (IntV 5), minAnchorSize = mas, nproc = Some (IntV 4),
          seed = Some (IntV 42), algorithmOptions = Some ''''\<rparr>
     \<lparr>targetFileName = ''/r/ref.fa'', queryFileName = ''/q/q.fa'', alignerSamOut = ''/o/out.sam''\<rparr>
     \<lparr>defaultRootDir = ''/tmp'', fileDB = db\<rparr> =
     ''bowtie2 '' @ '' -k 5'' @ '' -p 4'' @ (''  '') @ '' --seed 42 '' @
     ''-x /tmp/ref -f /q/q.fa -S /o/out.sam '' \<and>
   toCmd opts files tfm =
     ''bowtie2 '' @
     (if is_given (maxHits opts) then '' -k '' @ format_val (the (maxHits opts)) else []) @
     (if is_given (nproc opts) then '' -p '' @ format_val (the (nproc opts)) else []) @
     (case algorithmOptions opts of None \<Rightarrow> [] | Some ao \<Rightarrow> '' '' @ ao @ '' '') @
     (if is_given (seed opts) then '' --seed '' @ format_val (the (seed opts)) @ '' '' else []) @
     ''-x '' @ bt2BaseName (defaultRootDir tfm) (targetFileName files) @
     '' -f '' @ queryFileName files @ '' -S '' @ alignerSamOut files @ '' '' \<and>
   is_given v = (v \<noteq> None \<and> v \<noteq> Some (StrV ''''))"
proof (intro conjI)
  have "bt2BaseName ''/tmp'' ''/r/ref.fa'' = ''/tmp/ref''"
    by (simp add: bt2BaseName_def path_join_def splitext_def basename_def rfind_def)
  then show "toCmd \<lparr>maxHits = Some (IntV 5), minAnchorSize = mas, nproc = Some (IntV 4),
          seed = Some (IntV 42), algorithmOptions = Some ''''\<rparr>
     \<lparr>targetFileName = ''/r/ref.fa'', queryFileName = ''/q/q.fa'', alignerSamOut = ''/o/out.sam''\<rparr>
     \<lparr>defaultRootDir = ''/tmp'', fileDB = db\<rparr> =
     ''bowtie2 '' @ '' -k 5'' @ '' -p 4'' @ (''  '') @ '' --seed 42 '' @
     ''-x /tmp/ref -f /q/q.fa -S /o/out.sam ''"
    by (simp add: toCmd_segments is_given_def str_int_5 str_int_4 str_int_42)
  show "toCmd opts files tfm =
     ''bowtie2 '' @
     (if is_given (maxHits opts) then '' -k '' @ format_val (the (maxHits opts)) else []) @
     (if is_given (nproc opts) then '' -p '' @ format_val (the (nproc opts)) else []) @
     (case algorithmOptions opts of None \<Rightarrow> [] | Some ao \<Rightarrow> '' '' @ ao @ '' '') @
     (if is_given (seed opts) then '' --seed '' @ format_val (the (seed opts)) @ '' '' else []) @
     ''-x '' @ bt2BaseName (defaultRootDir tfm) (targetFileName files) @
     '' -f '' @ queryFileName files @ '' -S '' @ alignerSamOut files @ '' ''"
    by (rule toCmd_segments)
  show "is_given v = (v \<noteq> None \<and> v \<noteq> Some (StrV ''''))"
  proof (cases v)
    case None
    then show ?thesis by (simp add: is_given_def)
  next
    case (Some x)
    then show ?thesis by (cases x) (simp_all add: is_given_def)
  qed
qed

section \<open>Building the index\<close>

lemma foldl_register:
  "foldl (\<lambda>m indexFile. RegisterExistingTmpFile m indexFile True) tfm fs =
     tfm\<lparr>fileDB := fileDB tfm @ map (\<lambda>f. (f, True)) fs\<rparr>"
  by (induction fs arbitrary: tfm) (simp_all add: RegisterExistingTmpFile_def)

text \<open>
  \<^bold>\<open>C8\<close>. Let the index-build command return the exit code \<open>errCode\<close> and the error
  text \<open>errMsg\<close>. When \<open>errCode\<close> is not zero, \<^verbatim>\<open>_bt2BuildIndex\<close> raises
  \<^verbatim>\<open>RuntimeError(errMsg)\<close>, and \<^verbatim>\<open>_preProcess\<close> raises it too: nothing is registered with
  the temporary-file manager and the conversion is not called. When \<open>errCode\<close> is
  zero, \<^verbatim>\<open>_bt2BuildIndex\<close> returns the six index files of the base name, in their
  order, and \<^verbatim>\<open>_preProcess\<close> registers each of them with \<^verbatim>\<open>own=True\<close> before it
  calls the conversion.
\<close>

theorem index_build_outcomes:
  assumes "run (''bowtie2-build -q -f '' @ referenceFile @ '' '' @
                 bt2BaseName (defaultRootDir tfm) referenceFile) = (outLines, errCode, errMsg)"
  shows "(errCode \<noteq> 0 \<longrightarrow>
            bt2BuildIndex run (defaultRootDir tfm) referenceFile = Inl (RuntimeError errMsg) \<and>
            preProcess run pls2fasta inputFileName referenceFile regionTable noSplitSubreads tfm
              isWithinRepository = (Inl (RuntimeError errMsg), tfm)) \<and>
         (errCode = 0 \<longrightarrow>
            bt2BuildIndex run (defaultRootDir tfm) referenceFile =
              Inr (bt2IndexFiles (bt2BaseName (defaultRootDir tfm) referenceFile)) \<and>
            length (bt2IndexFiles (bt2BaseName (defaultRootDir tfm) referenceFile)) = 6 \<and>
            preProcess run pls2fasta inputFileName referenceFile regionTable noSplitSubreads tfm
              isWithinRepository =
              pls2fasta
                (tfm\<lparr>fileDB := fileDB tfm @
                   map (\<lambda>f. (f, True))
                     (bt2IndexFiles (bt2BaseName (defaultRootDir tfm) referenceFile))\<rparr>)
                inputFileName regionTable noSplitSubreads)"
proof (intro conjI impI)
  assume f: "errCode \<noteq> 0"
  with assms show b: "bt2BuildIndex run (defaultRootDir tfm) referenceFile = Inl (RuntimeError errMsg)"
    by (simp add: bt2BuildIndex_def Let_def)
  then show "preProcess run pls2fasta inputFileName referenceFile regionTable noSplitSubreads tfm
      isWithinRepository = (Inl (RuntimeError errMsg), tfm)"
    by (simp add: preProcess_def)
next
  assume z: "errCode = 0"
  with assms show b: "bt2BuildIndex run (defaultRootDir tfm) referenceFile =
      Inr (bt2IndexFiles (bt2BaseName (defaultRootDir tfm) referenceFile))"
    by (simp add: bt2BuildIndex_def Let_def)
  show "length (bt2IndexFiles (bt2BaseName (defaultRootDir tfm) referenceFile)) = 6"
    by (simp add: bt2IndexFiles_def)
  from b show "preProcess run pls2fasta inputFileName referenceFile regionTable noSplitSubreads tfm
      isWithinRepository =
      pls2fasta
        (tfm\<lparr>fileDB := fileDB tfm @
           map (\<lambda>f. (f, True))
             (bt2IndexFiles (bt2BaseName (defaultRootDir tfm) referenceFile))\<rparr>)
        inputFileName regionTable noSplitSubreads"
    by (simp add: preProcess_def foldl_register)
qed

theorem index_build_witness:
  "preProcess (\<lambda>cmd. ([], 1, ''bad format'')) (\<lambda>m i (r::unit) n. (Inr ''reads.fasta'', m))
      ''in.bas.h5'' ''/data/ref.fasta'' () False \<lparr>defaultRootDir = ''/tmp'', fileDB = []\<rparr> False =
     (Inl (RuntimeError ''bad format''), \<lparr>defaultRootDir = ''/tmp'', fileDB = []\<rparr>) \<and>
   bt2BuildIndex (\<lambda>cmd. ([], 1, ''bad format'')) ''/tmp'' ''/data/ref.fasta'' =
     Inl (RuntimeError ''bad format'') \<and>
   preProcess (\<lambda>cmd. if cmd = ''bowtie2-build -q -f /data/ref.fasta /tmp/ref'' then ([], 0, '''') else ([], 127, ''not run''))
      (\<lambda>m i (r::unit) n. (Inr ''reads.fasta'', m))
      ''in.bas.h5'' ''/data/ref.fasta'' () False \<lparr>defaultRootDir = ''/tmp'', fileDB = []\<rparr> False =
     (Inr ''reads.fasta'',
      \<lparr>defaultRootDir = ''/tmp'',
       fileDB = [(''/tmp/ref.1.bt2'', True), (''/tmp/ref.2.bt2'', True), (''/tmp/ref.3.bt2'', True),
                 (''/tmp/ref.4.bt2'', True), (''/tmp/ref.rev.1.bt2'', True),
                 (''/tmp/ref.rev.2.bt2'', True)]\<rparr>)"
proof -
  let ?m = "\<lparr>defaultRootDir = ''/tmp'', fileDB = []\<rparr>"
  let ?conv = "\<lambda>(m::tempFileManager) (i::string) (r::unit) (n::bool). (Inr ''reads.fasta'' :: error + string, m)"
  let ?bad = "\<lambda>cmd::string. ([]::string list, 1::int, ''bad format'')"
  let ?ok = "\<lambda>cmd. if cmd = ''bowtie2-build -q -f /data/ref.fasta /tmp/ref''
      then ([]::string list, 0::int, '''') else ([], 127, ''not run'')"
  have base: "bt2BaseName ''/tmp'' ''/data/ref.fasta'' = ''/tmp/ref''"
    by (simp add: bt2BaseName_def path_join_def splitext_def basename_def rfind_def)
  have files: "bt2IndexFiles ''/tmp/ref'' =
      [''/tmp/ref.1.bt2'', ''/tmp/ref.2.bt2'', ''/tmp/ref.3.bt2'', ''/tmp/ref.4.bt2'',
       ''/tmp/ref.rev.1.bt2'', ''/tmp/ref.rev.2.bt2'']"
    by (simp add: bt2IndexFiles_def join_dot_def)
  note tb = index_build_outcomes [where run = ?bad and tfm = ?m and referenceFile = "''/data/ref.fasta''"
      and outLines = "[]" and errCode = 1 and errMsg = "''bad format''"
      and pls2fasta = ?conv and inputFileName = "''in.bas.h5''"
      and regionTable = "()" and noSplitSubreads = False and isWithinRepository = False]
  note to = index_build_outcomes [where run = ?ok and tfm = ?m and referenceFile = "''/data/ref.fasta''"
      and outLines = "[]" and errCode = 0 and errMsg = "[]"
      and pls2fasta = ?conv and inputFileName = "''in.bas.h5''"
      and regionTable = "()" and noSplitSubreads = False and isWithinRepository = False]
  from tb have "preProcess ?bad ?conv ''in.bas.h5'' ''/data/ref.fasta'' () False ?m False =
      (Inl (RuntimeError ''bad format''), ?m)"
    and "bt2BuildIndex ?bad ''/tmp'' ''/data/ref.fasta'' = Inl (RuntimeError ''bad format'')"
    by simp_all
  moreover from to have "preProcess ?ok ?conv ''in.bas.h5'' ''/data/ref.fasta'' () False ?m False =
      (Inr ''reads.fasta'', ?m\<lparr>fileDB := map (\<lambda>f. (f, True)) (bt2IndexFiles ''/tmp/ref'')\<rparr>)"
    by (simp add: base)
  ultimately show ?thesis by (simp add: files)
qed

section \<open>Errors of the reconciliation\<close>

text \<open>
  \<^bold>\<open>C9\<close>. When the reconciliation raises, the options object the caller holds still
  has the raw string it had before the call; only \<open>nproc\<close> can differ from its value
  before the call, and the error carries that raw string. The joined token list is
  stored in \<open>algorithmOptions\<close> only when the loop has ended without an error.
\<close>

theorem error_keeps_raw_string:
  "(\<forall>err opts'. resolveAlgorithmOptions opts = Inl (err, opts') \<longrightarrow>
      algorithmOptions opts' = algorithmOptions opts \<and>
      opts' = opts\<lparr>nproc := nproc opts'\<rparr> \<and>
      (\<exists>ao e. algorithmOptions opts = Some ao \<and> err = ValueError (wrapMsg ao) e)) \<and>
   (\<forall>r ao. resolveAlgorithmOptions opts = Inr r \<and> algorithmOptions opts = Some ao \<longrightarrow>
      (\<exists>opts' items'. scan opts 0 (split_sp ao) = Inr (opts', items') \<and>
         algorithmOptions r = Some (join_sp items')))"
proof (intro conjI allI impI)
  fix err opts'
  assume a: "resolveAlgorithmOptions opts = Inl (err, opts')"
  then obtain ao where ao: "algorithmOptions opts = Some ao"
    by (cases "algorithmOptions opts") (simp_all add: resolveAlgorithmOptions_def)
  with a obtain e where
    sc: "scan opts 0 (split_sp ao) = Inl (e, opts')" and err: "err = ValueError (wrapMsg ao) e"
    by (auto simp: resolveAlgorithmOptions_def resolveItems_def split: sum.splits prod.splits)
  from scan_Inl_fields [OF sc] show eq: "opts' = opts\<lparr>nproc := nproc opts'\<rparr>" .
  then show "algorithmOptions opts' = algorithmOptions opts"
    by (metis options.select_convs(5) options.surjective options.update_convs(3))
  from ao err show "\<exists>ao e. algorithmOptions opts = Some ao \<and> err = ValueError (wrapMsg ao) e"
    by blast
next
  fix r ao
  assume "resolveAlgorithmOptions opts = Inr r \<and> algorithmOptions opts = Some ao"
  then show "\<exists>opts' items'. scan opts 0 (split_sp ao) = Inr (opts', items') \<and>
      algorithmOptions r = Some (join_sp items')"
    by (auto simp: resolveAlgorithmOptions_def resolveItems_def split: sum.splits prod.splits)
qed

theorem error_keeps_raw_string_witness:
  "resolveAlgorithmOptions
     \<lparr>maxHits = None, minAnchorSize = None, nproc = None, seed = None,
      algorithmOptions = Some ''-x idx -p 2 -k''\<rparr> =
   Inl (ValueError (wrapMsg ''-x idx -p 2 -k'') IndexError,
     \<lparr>maxHits = None, minAnchorSize = None, nproc = Some (IntV 2), seed = None,
      algorithmOptions = Some ''-x idx -p 2 -k''\<rparr>) \<and>
   algorithmOptions
     \<lparr>maxHits = None, minAnchorSize = None, nproc = Some (IntV 2), seed = None,
      algorithmOptions = Some ''-x idx -p 2 -k''\<rparr> =
   algorithmOptions
     \<lparr>maxHits = None, minAnchorSize = None, nproc = None, seed = None,
      algorithmOptions = Some ''-x idx -p 2 -k''\<rparr>"
proof -
  let ?a = "\<lparr>maxHits = None, minAnchorSize = None, nproc = None, seed = None,
      algorithmOptions = Some ''-x idx -p 2 -k''\<rparr>"
  let ?b = "\<lparr>maxHits = None, minAnchorSize = None, nproc = Some (IntV 2), seed = None,
      algorithmOptions = Some ''-x idx -p 2 -k''\<rparr>"
  have run: "resolveAlgorithmOptions ?a = Inl (ValueError (wrapMsg ''-x idx -p 2 -k'') IndexError, ?b)"
    by (simp add: eval_defs)
  with error_keeps_raw_string [of ?a]
  have "algorithmOptions ?b = algorithmOptions ?a" by blast
  with run show ?thesis by blast
qed

section \<open>A seed among the raw options\<close>

lemma toCmd_around_raw:
  assumes "algorithmOptions opts = Some ao"
  shows "toCmd opts files tfm =
     (''bowtie2 '' @
      (if is_given (maxHits opts) then '' -k '' @ format_val (the (maxHits opts)) else []) @
      (if is_given (nproc opts) then '' -p '' @ format_val (the (nproc opts)) else [])) @
     CHR 0x20 # ao @ CHR 0x20 #
     ((if is_given (seed opts) then '' --seed '' @ format_val (the (seed opts)) @ '' '' else []) @
      ''-x '' @ bt2BaseName (defaultRootDir tfm) (targetFileName files) @
      '' -f '' @ queryFileName files @ '' -S '' @ alignerSamOut files @ '' '')"
  using assms by (simp add: toCmd_segments)

lemma toCmd_tokens:
  assumes "algorithmOptions opts = Some ao"
  shows "set (split_sp (toCmd opts files tfm)) \<subseteq>
     set (split_sp (toCmd (opts\<lparr>algorithmOptions := Some []\<rparr>) files tfm)) \<union> set (split_sp ao)"
proof -
  have e: "algorithmOptions (opts\<lparr>algorithmOptions := Some []\<rparr>) = Some []" by simp
  show ?thesis
    unfolding toCmd_around_raw [OF assms] toCmd_around_raw [OF e] split_sp_append_space
    by auto
qed

text \<open>
  \<^bold>\<open>C10\<close>. \<^verbatim>\<open>--seed\<close> is an ignored binary flag. A successful reconciliation leaves
  the \<open>seed\<close> field as it was and leaves no \<^verbatim>\<open>--seed\<close> token in \<open>algorithmOptions\<close>. In
  the command built from the result, the \<^verbatim>\<open>--seed\<close> segment is the one of the \<open>seed\<close>
  field before the call, and a \<^verbatim>\<open>--seed\<close> token stands in the command only if it
  stands in the command built without any raw options: a seed given in the raw
  options alone does not reach the command.
\<close>

theorem raw_seed_not_emitted:
  assumes "resolveAlgorithmOptions opts = Inr r"
  shows "seed r = seed opts \<and>
         (\<forall>ao'. algorithmOptions r = Some ao' \<longrightarrow>
            ''--seed'' \<notin> set (split_sp ao') \<and>
            (''--seed'' \<in> set (split_sp (toCmd r files tfm)) \<longrightarrow>
             ''--seed'' \<in> set (split_sp (toCmd (r\<lparr>algorithmOptions := Some []\<rparr>) files tfm))) \<and>
            toCmd r files tfm =
              (''bowtie2 '' @
               (if is_given (maxHits r) then '' -k '' @ format_val (the (maxHits r)) else []) @
               (if is_given (nproc r) then '' -p '' @ format_val (the (nproc r)) else [])) @
              CHR 0x20 # ao' @ CHR 0x20 #
              ((if is_given (seed opts)
                then '' --seed '' @ format_val (the (seed opts)) @ '' '' else []) @
               ''-x '' @ bt2BaseName (defaultRootDir tfm) (targetFileName files) @
               '' -f '' @ queryFileName files @ '' -S '' @ alignerSamOut files @ '' ''))"
proof (intro conjI allI impI)
  show s: "seed r = seed opts" using assms by (rule resolve_fields(3))
  fix ao' assume r: "algorithmOptions r = Some ao'"
  show n: "''--seed'' \<notin> set (split_sp ao')"
  proof (cases "algorithmOptions opts")
    case None
    with assms have "r = opts" by (simp add: resolveAlgorithmOptions_def)
    with None r show ?thesis by simp
  next
    case (Some ao)
    from resolve_result_tokens [OF assms Some] r
    have "\<forall>t\<in>set (split_sp ao'). \<not> recognised t" by simp
    then show ?thesis by (auto simp: recognised_def ignoredBinaryOptions_def)
  qed
  from toCmd_around_raw [OF r, of files tfm] s
  show "toCmd r files tfm =
      (''bowtie2 '' @
       (if is_given (maxHits r) then '' -k '' @ format_val (the (maxHits r)) else []) @
       (if is_given (nproc r) then '' -p '' @ format_val (the (nproc r)) else [])) @
      CHR 0x20 # ao' @ CHR 0x20 #
      ((if is_given (seed opts)
        then '' --seed '' @ format_val (the (seed opts)) @ '' '' else []) @
       ''-x '' @ bt2BaseName (defaultRootDir tfm) (targetFileName files) @
       '' -f '' @ queryFileName files @ '' -S '' @ alignerSamOut files @ '' '')"
    by simp
  assume "''--seed'' \<in> set (split_sp (toCmd r files tfm))"
  with toCmd_tokens [OF r, of files tfm] n
  show "''--seed'' \<in> set (split_sp (toCmd (r\<lparr>algorithmOptions := Some []\<rparr>) files tfm))"
    by blast
qed

theorem raw_seed_witness:
  "resolveAlgorithmOptions
     \<lparr>maxHits = Some (IntV 5), minAnchorSize = None, nproc = None, seed = None,
      algorithmOptions = Some ''--seed 7 --local''\<rparr> =
   Inr \<lparr>maxHits = Some (IntV 5), minAnchorSize = None, nproc = None, seed = None,
      algorithmOptions = Some ''--local''\<rparr> \<and>
   ''--seed'' \<notin> set (split_sp (toCmd
     \<lparr>maxHits = Some (IntV 5), minAnchorSize = None, nproc = None, seed = None,
      algorithmOptions = Some ''--local''\<rparr>
     \<lparr>targetFileName = ''/r/ref.fa'', queryFileName = ''/q/q.fa'', alignerSamOut = ''/o/out.sam''\<rparr>
     \<lparr>defaultRootDir = ''/tmp'', fileDB = []\<rparr>))"
proof -
  let ?a = "\<lparr>maxHits = Some (IntV 5), minAnchorSize = None, nproc = None, seed = None,
      algorithmOptions = Some ''--seed 7 --local''\<rparr>"
  let ?r = "\<lparr>maxHits = Some (IntV 5), minAnchorSize = None, nproc = None, seed = None,
      algorithmOptions = Some ''--local''\<rparr>"
  let ?f = "\<lparr>targetFileName = ''/r/ref.fa'', queryFileName = ''/q/q.fa'', alignerSamOut = ''/o/out.sam''\<rparr>"
  let ?m = "\<lparr>defaultRootDir = ''/tmp'', fileDB = []\<rparr>"
  have run: "resolveAlgorithmOptions ?a = Inr ?r"
    by (simp add: eval_defs)
  have base: "bt2BaseName ''/tmp'' ''/r/ref.fa'' = ''/tmp/ref''"
    by (simp add: bt2BaseName_def path_join_def splitext_def basename_def rfind_def)
  have "toCmd (?r\<lparr>algorithmOptions := Some []\<rparr>) ?f ?m = ''bowtie2  -k 5  -x /tmp/ref -f /q/q.fa -S /o/out.sam ''"
    by (simp add: toCmd_segments is_given_def str_int_5 base)
  then have no: "''--seed'' \<notin> set (split_sp (toCmd (?r\<lparr>algorithmOptions := Some []\<rparr>) ?f ?m))"
    by simp
  from raw_seed_not_emitted [OF run, of ?f ?m] no
  have "''--seed'' \<notin> set (split_sp (toCmd ?r ?f ?m))"
    by (metis options.select_convs(5))
  with run show ?thesis by simp
qed

end
